theory Spec2Isabelle
  imports Main "HOL-Library.Sublist" "HOL-Library.Monad_Syntax"
begin

section \<open>Strings: the library functions \<^verbatim>\<open>progress.go\<close> calls\<close>

text \<open>
  A Go string is a sequence of bytes, and so is an Isabelle \<^typ>\<open>string\<close>. The functions of
  this section are the ones of Go's \<^verbatim>\<open>strings\<close>, \<^verbatim>\<open>fmt\<close> and \<^verbatim>\<open>regexp\<close> packages that
  \<^verbatim>\<open>progress\<close> calls, each at the patterns and separators it is called with.
\<close>

text \<open>
  \<^verbatim>\<open>strings.Split(s, sep)\<close> for a non-empty separator: cut at every occurrence of \<open>sep\<close>,
  found from the left and not overlapping. The result always has at least one element.
  (\<^verbatim>\<open>progress\<close> only splits on \<^verbatim>\<open>"::"\<close>, \<^verbatim>\<open>":"\<close> and the newline.)
\<close>

fun Split :: "string \<Rightarrow> string \<Rightarrow> string list" where
  "Split [] sep = [[]]"
| "Split (c # cs) sep =
     (if sep \<noteq> [] \<and> prefix sep (c # cs)
      then [] # Split (drop (length sep - 1) cs) sep
      else (case Split cs sep of
              [] \<Rightarrow> [[c]]
            | w # ws \<Rightarrow> (c # w) # ws))"

text \<open>\<^verbatim>\<open>strings.Join(elems, sep)\<close>.\<close>

fun Join :: "string list \<Rightarrow> string \<Rightarrow> string" where
  "Join [] sep = []"
| "Join [x] sep = x"
| "Join (x # y # ys) sep = x @ sep @ Join (y # ys) sep"

text \<open>\<^verbatim>\<open>strings.HasPrefix(s, p)\<close>.\<close>

definition HasPrefix :: "string \<Rightarrow> string \<Rightarrow> bool" where
  "HasPrefix s p = prefix p s"

text \<open>
  \<^verbatim>\<open>strings.TrimSpace\<close> removes leading and trailing white space as Unicode defines it:
  the ASCII characters tab, newline, vertical tab, form feed, carriage return and space,
  and the code points U+0085, U+00A0, U+1680, U+2000 to U+200A, U+2028, U+2029, U+202F,
  U+205F and U+3000, which a Go string holds in UTF-8. \<open>space_width s\<close> is the number of
  bytes of the white-space character \<open>s\<close> starts with, or 0.
\<close>

definition asciiSpace :: "char \<Rightarrow> bool" where
  "asciiSpace c = (c = CHR 0x09 \<or> c = CHR 0x0A \<or> c = CHR 0x0B \<or> c = CHR 0x0C
     \<or> c = CHR 0x0D \<or> c = CHR 0x20)"

definition utf8_spaces :: "string list" where
  "utf8_spaces =
     [[CHR 0xC2, CHR 0x85], [CHR 0xC2, CHR 0xA0], [CHR 0xE1, CHR 0x9A, CHR 0x80],
      [CHR 0xE2, CHR 0x80, CHR 0x80], [CHR 0xE2, CHR 0x80, CHR 0x81],
      [CHR 0xE2, CHR 0x80, CHR 0x82], [CHR 0xE2, CHR 0x80, CHR 0x83],
      [CHR 0xE2, CHR 0x80, CHR 0x84], [CHR 0xE2, CHR 0x80, CHR 0x85],
      [CHR 0xE2, CHR 0x80, CHR 0x86], [CHR 0xE2, CHR 0x80, CHR 0x87],
      [CHR 0xE2, CHR 0x80, CHR 0x88], [CHR 0xE2, CHR 0x80, CHR 0x89],
      [CHR 0xE2, CHR 0x80, CHR 0x8A], [CHR 0xE2, CHR 0x80, CHR 0xA8],
      [CHR 0xE2, CHR 0x80, CHR 0xA9], [CHR 0xE2, CHR 0x80, CHR 0xAF],
      [CHR 0xE2, CHR 0x81, CHR 0x9F], [CHR 0xE3, CHR 0x80, CHR 0x80]]"

definition space_width :: "string \<Rightarrow> nat" where
  "space_width s =
     (case s of
        [] \<Rightarrow> 0
      | c # _ \<Rightarrow>
          if asciiSpace c then 1
          else (case filter (\<lambda>w. prefix w s) utf8_spaces of
                  [] \<Rightarrow> 0
                | w # _ \<Rightarrow> length w))"

text \<open>The same from the right: the bytes of the white-space character \<open>s\<close> ends with.\<close>

definition space_width_right :: "string \<Rightarrow> nat" where
  "space_width_right s =
     (case rev s of
        [] \<Rightarrow> 0
      | c # _ \<Rightarrow>
          if asciiSpace c then 1
          else (case filter (\<lambda>w. suffix w s) utf8_spaces of
                  [] \<Rightarrow> 0
                | w # _ \<Rightarrow> length w))"

function trimLeftSpace :: "string \<Rightarrow> string" where
  "trimLeftSpace s = (if space_width s = 0 then s else trimLeftSpace (drop (space_width s) s))"
  by pat_completeness auto
termination
  by (relation "measure length") (auto simp: space_width_def split: list.splits)

function trimRightSpace :: "string \<Rightarrow> string" where
  "trimRightSpace s =
     (if space_width_right s = 0 then s
      else trimRightSpace (take (length s - space_width_right s) s))"
  by pat_completeness auto
termination
  by (relation "measure length") (auto simp: space_width_right_def split: list.splits)

definition TrimSpace :: "string \<Rightarrow> string" where
  "TrimSpace s = trimRightSpace (trimLeftSpace s)"

text \<open>
  \<^verbatim>\<open>fmt.Sprintf("%-11s", label)\<close>: the label, padded with spaces on the right to a width of 11
  (a longer label is left as it is). The labels of \<^verbatim>\<open>progress\<close> are ASCII constants, for which
  the width is the number of bytes.
\<close>

definition pad11 :: "string \<Rightarrow> string" where
  "pad11 label = label @ replicate (11 - length label) (CHR '' '')"

subsection \<open>The regular expressions of \<^verbatim>\<open>formatURN\<close>\<close>

text \<open>
  \<^verbatim>\<open>regexp.MustCompile(`\/[^:]+`).ReplaceAllString(s, "")\<close>: every slash that is followed by at
  least one character other than a colon is deleted together with all the characters up to
  the next colon (or the end).
\<close>

function delete_subpaths :: "string \<Rightarrow> string" where
  "delete_subpaths [] = []"
| "delete_subpaths (c # cs) =
     (if c = CHR ''/'' \<and> cs \<noteq> [] \<and> hd cs \<noteq> CHR '':''
      then delete_subpaths (dropWhile (\<lambda>x. x \<noteq> CHR '':'') cs)
      else c # delete_subpaths cs)"
  by pat_completeness auto
termination
  by (relation "measure length") (auto simp: less_Suc_eq_le length_dropWhile_le)

text \<open>
  \<^verbatim>\<open>ReplaceAllString\<close> for a pattern that is a literal, non-empty text (\<^verbatim>\<open>sst:sst:\<close> and \<^verbatim>\<open>\$\<close>) and
  a replacement without a dollar sign: every occurrence, found from the left and not
  overlapping, is replaced.
\<close>

fun ReplaceAllLiteral :: "string \<Rightarrow> string \<Rightarrow> string \<Rightarrow> string" where
  "ReplaceAllLiteral [] pat repl = []"
| "ReplaceAllLiteral (c # cs) pat repl =
     (if pat \<noteq> [] \<and> prefix pat (c # cs)
      then repl @ ReplaceAllLiteral (drop (length pat - 1) cs) pat repl
      else c # ReplaceAllLiteral cs pat repl)"

text \<open>
  \<^verbatim>\<open>regexp.MustCompile(`\.sst\.(.+)$`).FindStringSubmatch(s)\<close>: the leftmost \<^verbatim>\<open>.sst.\<close> that is
  followed, up to the end of \<open>s\<close>, by at least one character and by no newline (the dot of
  a Go regular expression does not match a newline). The result is the text before the
  match and the group \<^verbatim>\<open>(.+)\<close>; \<open>None\<close> is Go's \<^verbatim>\<open>nil\<close> (no match).
\<close>

fun find_sst_suffix :: "string \<Rightarrow> (string \<times> string) option" where
  "find_sst_suffix [] = None"
| "find_sst_suffix (c # cs) =
     (let grp = drop 4 cs in
      if prefix ''.sst.'' (c # cs) \<and> grp \<noteq> [] \<and> CHR 0x0A \<notin> set grp
      then Some ([], grp)
      else map_option (\<lambda>(before, g). (c # before, g)) (find_sst_suffix cs))"

text \<open>
  The replacement text of \<^verbatim>\<open>ReplaceAllString\<close> is a template: \<^verbatim>\<open>$$\<close> stands for a dollar sign,
  \<^verbatim>\<open>$name\<close> and \<^verbatim>\<open>${name}\<close> for a submatch, and a dollar sign followed by neither is kept. The
  pattern \<^verbatim>\<open>pulumi-nodejs:dynamic:Resource$\<close> has no group: \<^verbatim>\<open>$0\<close> is the whole match and every
  other name expands to the empty text. A name is the longest run of letters, digits and
  underscores; the model recognises the ASCII ones.
\<close>

definition name_char :: "char \<Rightarrow> bool" where
  "name_char c =
     (let n = (of_char c :: nat)
      in (97 \<le> n \<and> n \<le> 122) \<or> (65 \<le> n \<and> n \<le> 90) \<or> (48 \<le> n \<and> n \<le> 57) \<or> n = 95)"

definition extract_name :: "string \<Rightarrow> (string \<times> string) option" where
  "extract_name str =
     (if str = [] then None
      else
        let brace = (hd str = CHR ''{'');
            body = (if brace then tl str else str);
            name = takeWhile name_char body;
            rest = dropWhile name_char body
        in if name = [] then None
           else if brace
             then (if rest = [] \<or> hd rest \<noteq> CHR ''}'' then None else Some (name, tl rest))
             else Some (name, rest))"

lemma extract_name_shorter: "extract_name t = Some (name, rest) \<Longrightarrow> length rest \<le> length t"
proof (cases t)
  case Nil
  assume "extract_name t = Some (name, rest)"
  with Nil show ?thesis by (simp add: extract_name_def)
next
  case (Cons c cs)
  have drop_le: "length (dropWhile name_char b) \<le> length b" for b
    by (rule length_dropWhile_le)
  assume "extract_name t = Some (name, rest)"
  with Cons show ?thesis
    using drop_le [of cs] drop_le [of "c # cs"]
    by (auto simp: extract_name_def Let_def split: if_splits)
qed

function expand :: "string \<Rightarrow> string \<Rightarrow> string" where
  "expand [] m = []"
| "expand (c # t) m =
     (if c \<noteq> CHR ''$'' then c # expand t m
      else if t \<noteq> [] \<and> hd t = CHR ''$'' then CHR ''$'' # expand (tl t) m
      else (case extract_name t of
              None \<Rightarrow> CHR ''$'' # expand t m
            | Some (name, rest) \<Rightarrow> (if name = ''0'' then m else []) @ expand rest m))"
  by pat_completeness auto
termination
  by (relation "measure (\<lambda>(t, m). length t)")
     (auto simp: less_Suc_eq_le dest: extract_name_shorter)

definition dynamic_resource :: string where
  "dynamic_resource = ''pulumi-nodejs:dynamic:Resource''"

definition arrow :: string where
  "arrow = [CHR 0x20, CHR 0xE2, CHR 0x86, CHR 0x92, CHR 0x20]"

section \<open>The identifier formatter\<close>

text \<open>
  \<^verbatim>\<open>formatURN\<close> (lines 51 to 72). \<^verbatim>\<open>strings.Split(urn, "::")[2:]\<close> panics when the split has
  fewer than two elements, \<^verbatim>\<open>splits[0]\<close> when it has two and \<^verbatim>\<open>splits[1]\<close> when it has three:
  \<open>None\<close> is the Go run-time panic. The regular expressions are constants that compile, and
  their functions do not fail.
\<close>

definition formatURN :: "string \<Rightarrow> string option" where
  "formatURN urn =
     (let parts = Split urn ''::'' in
      if length parts < 2 then None
      else
        (case drop 2 parts of
           [] \<Rightarrow> None
         | [urn0] \<Rightarrow> None
         | urn0 # resourceName0 # _ \<Rightarrow>
             let urn1 = delete_subpaths urn0;
                 urn2 = ReplaceAllLiteral urn1 ''sst:sst:'' ''sst:'';
                 resourceType = find_sst_suffix resourceName0;
                 (urn3, resourceName1) =
                   (case resourceType of
                      Some (before, grp) \<Rightarrow>
                        if suffix dynamic_resource urn2
                        then (take (length urn2 - length dynamic_resource) urn2
                                @ expand grp dynamic_resource,
                              before)
                        else (urn2, resourceName0)
                    | None \<Rightarrow> (urn2, resourceName0));
                 urn4 = ReplaceAllLiteral urn3 ''$'' arrow;
                 urn5 = ReplaceAllLiteral urn4 ''$'' arrow
             in Some (urn5 @ arrow @ resourceName1)))"

section \<open>Time\<close>

text \<open>
  A \<^verbatim>\<open>time.Time\<close> is modelled by the number of nanoseconds since the zero \<^verbatim>\<open>Time\<close> (January 1 of
  year 1, UTC), so the zero value of the type, which a lookup of a missing key in
  \<^verbatim>\<open>map[string]time.Time\<close> returns, is 0. A \<^verbatim>\<open>time.Duration\<close> is an \<^verbatim>\<open>int64\<close> count of
  nanoseconds. The clock is an input: every event of the stream comes with the reading made
  while it is handled, by \<^verbatim>\<open>time.Now()\<close> of line 131 or inside \<^verbatim>\<open>time.Since\<close> of line 218 (an event
  with both pointers set, whose iteration runs both lines, is given the one reading). The
  difference of two readings is what \<^verbatim>\<open>time.Since\<close> returns for a time that \<^verbatim>\<open>time.Now()\<close> gave.
\<close>

type_synonym Time = int
type_synonym Duration = int

definition maxDuration :: Duration where
  "maxDuration = 2 ^ 63 - 1"

definition minDuration :: Duration where
  "minDuration = - (2 ^ 63)"

definition Millisecond :: Duration where
  "Millisecond = 1000000"

text \<open>The value an \<^verbatim>\<open>int64\<close> holds after an addition or subtraction that may wrap around.\<close>

definition int64 :: "int \<Rightarrow> int" where
  "int64 x = (x + 2 ^ 63) mod 2 ^ 64 - 2 ^ 63"

text \<open>
  \<^verbatim>\<open>t.Sub(u)\<close>: the difference, or the largest (smallest) duration when the difference does not
  fit; \<^verbatim>\<open>time.Since(t)\<close> is \<^verbatim>\<open>time.Now().Sub(t)\<close>.
\<close>

definition Sub :: "Time \<Rightarrow> Time \<Rightarrow> Duration" where
  "Sub t u =
     (if t - u > maxDuration then maxDuration
      else if t - u < minDuration then minDuration
      else t - u)"

definition Since :: "Time \<Rightarrow> Time \<Rightarrow> Duration" where
  "Since now t = Sub now t"

text \<open>
  \<^verbatim>\<open>d.Round(m)\<close>: the nearest multiple of \<open>m\<close>, halfway values away from zero, and the largest
  (smallest) duration when the result does not fit. Go's \<^verbatim>\<open>%\<close> truncates towards zero, and
  \<^verbatim>\<open>lessThanHalf\<close> compares in \<^verbatim>\<open>uint64\<close>.
\<close>

definition go_rem :: "int \<Rightarrow> int \<Rightarrow> int" where
  "go_rem d m = sgn d * (\<bar>d\<bar> mod \<bar>m\<bar>)"

definition lessThanHalf :: "Duration \<Rightarrow> Duration \<Rightarrow> bool" where
  "lessThanHalf x y = ((x + x) mod 2 ^ 64 < y mod 2 ^ 64)"

definition Round :: "Duration \<Rightarrow> Duration \<Rightarrow> Duration" where
  "Round d m =
     (if m \<le> 0 then d
      else
        let r = go_rem d m in
        if d < 0 then
          (let r' = - r in
           if lessThanHalf r' m then int64 (d + r')
           else (let d1 = int64 (d - m + r') in if d1 < d then d1 else minDuration))
        else if lessThanHalf r m then int64 (d - r)
        else (let d1 = int64 (d + m - r) in if d1 > d then d1 else maxDuration))"

section \<open>The data of the reducer\<close>

datatype ProgressMode =
  ProgressModeDeploy | ProgressModeRemove | ProgressModeCancel | ProgressModeRefresh

text \<open>The colours \<^verbatim>\<open>progress\<close> uses, of \<^verbatim>\<open>color.Attribute\<close>.\<close>

datatype Attribute = FgRed | FgGreen | FgYellow | FgWhite | FgHiBlack

record Progress =
  Color :: Attribute
  Label :: string
  URN :: string
  Final :: bool
  Message :: string
  Duration :: Duration

text \<open>
  The events. \<^verbatim>\<open>project.StackEvent\<close> and the \<^verbatim>\<open>apitype\<close> structures it embeds are declared
  outside \<^verbatim>\<open>progress.go\<close>; the records have the fields \<^verbatim>\<open>progress\<close> reads. An event is a
  structure of pointers, one per kind of event, each of which may be \<^verbatim>\<open>nil\<close> (\<open>None\<close>);
  \<^verbatim>\<open>Metadata.New\<close> is a pointer as well. \<open>'v\<close> is the type of an output value
  (\<^verbatim>\<open>interface{}\<close>). \<^verbatim>\<open>apitype.OpType\<close> and \<^verbatim>\<open>ProgressMode\<close> are string types; the datatypes
  have their named constants, the only values \<^verbatim>\<open>progress\<close> compares with.
\<close>

datatype OpType =
  OpSame | OpCreate | OpUpdate | OpDelete | OpReplace | OpCreateReplacement
  | OpDeleteReplaced | OpRead | OpReadReplacement | OpRefresh | OpReadDiscard
  | OpDiscardReplaced | OpRemovePendingReplace | OpImport | OpImportReplacement

record 'v step_state =
  Outputs :: "string \<rightharpoonup> 'v"

record 'v step_metadata =
  Op :: OpType
  md_URN :: string
  Type :: string
  New :: "'v step_state option"

record diagnostic =
  diag_URN :: string
  diag_Message :: string
  Severity :: string

record 'v stack_event =
  SummaryEvent :: "unit option"
  ConcurrentUpdateEvent :: "unit option"
  StdOutEvent :: "string option"
  ResourcePreEvent :: "'v step_metadata option"
  ResOutputsEvent :: "'v step_metadata option"
  ResOpFailedEvent :: "unit option"
  DiagnosticEvent :: "diagnostic option"

text \<open>
  The spinner, of the library \<^verbatim>\<open>briandowns/spinner\<close>: the status text after the animation and
  the two flags its methods keep. \<^verbatim>\<open>Start\<close> does nothing when the spinner is running or
  disabled; the model takes the process to run in a terminal.
\<close>

record spinner =
  Suffix :: string
  enabled :: bool
  active :: bool

definition spinner_New :: spinner where
  "spinner_New = \<lparr>Suffix = [], enabled = True, active = False\<rparr>"

definition Start :: "spinner \<Rightarrow> spinner" where
  "Start sp = (if active sp \<or> \<not> enabled sp then sp else sp\<lparr>active := True\<rparr>)"

definition Stop :: "spinner \<Rightarrow> spinner" where
  "Stop sp = (if active sp then sp\<lparr>active := False\<rparr> else sp)"

definition Restart :: "spinner \<Rightarrow> spinner" where
  "Restart sp = Start (Stop sp)"

definition Enable :: "spinner \<Rightarrow> spinner" where
  "Enable sp = Restart (sp\<lparr>enabled := True\<rparr>)"

definition Disable :: "spinner \<Rightarrow> spinner" where
  "Disable sp = Stop (sp\<lparr>enabled := False\<rparr>)"

text \<open>
  What is written to the terminal, colours of the final report left out: a status line
  (the colour of its marker, the padded label, the formatted identifier, the duration when
  it is printed and the message when it is printed), a line of text, and the two final
  reports. The success report prints the outputs in the order Go iterates over the map,
  which is not specified, so it is given by the map; the failure report has one line per
  error: the formatted identifier, when the error has one, and the trimmed message.
\<close>

datatype 'v printed =
  StatusLine Attribute string string "Duration option" "string option"
  | TextLine string
  | ReportComplete "string \<rightharpoonup> 'v"
  | ReportFailed "(string option \<times> string) list"

record errorStatus =
  Error :: string
  err_URN :: string

text \<open>
  The variables of \<^verbatim>\<open>progress\<close>: the state of the reducer, and the terminal. \<^verbatim>\<open>dedupe\<close> is a
  \<^verbatim>\<open>map[string]bool\<close> that only ever holds \<^verbatim>\<open>true\<close>, a set. \<^verbatim>\<open>pending\<close> is a Go map, kept here in
  the order of insertion (it is only written in a branch that never runs).
\<close>

record 'v reducer =
  spin :: spinner
  pending :: "(string \<times> string) list"
  dedupe :: "string set"
  timing :: "string \<rightharpoonup> Time"
  errors :: "errorStatus list"
  outputs :: "string \<rightharpoonup> 'v"
  terminal :: "'v printed list"

definition mode_suffix :: "ProgressMode \<Rightarrow> string" where
  "mode_suffix mode =
     (case mode of
        ProgressModeRemove \<Rightarrow> ''  Removing...''
      | ProgressModeDeploy \<Rightarrow> ''  Deploying...''
      | ProgressModeCancel \<Rightarrow> ''  Cancelling...''
      | ProgressModeRefresh \<Rightarrow> ''  Refreshing...'')"

text \<open>The state when the loop starts (lines 34 to 48, 74 and 105 to 111).\<close>

definition start :: "ProgressMode \<Rightarrow> 'v reducer" where
  "start mode =
     \<lparr>spin = Start (spinner_New\<lparr>Suffix := mode_suffix mode\<rparr>),
      pending = [],
      dedupe = {},
      timing = Map.empty,
      errors = [],
      outputs = Map.empty,
      terminal = []\<rparr>"

section \<open>The status line\<close>

text \<open>\<^verbatim>\<open>strings.TrimRight(s, "\n")\<close>, of the branch that never runs.\<close>

definition TrimRight_newlines :: "string \<Rightarrow> string" where
  "TrimRight_newlines s = rev (dropWhile (\<lambda>c. c = CHR 0x0A) (rev s))"

definition map_assign :: "(string \<times> string) list \<Rightarrow> string \<Rightarrow> string \<Rightarrow> (string \<times> string) list" where
  "map_assign m k v =
     (if k \<in> fst ` set m then map (\<lambda>(k', v'). if k' = k then (k', v) else (k', v')) m
      else m @ [(k, v)])"

text \<open>
  \<^verbatim>\<open>printProgress\<close> (lines 75 to 103). The spinner is disabled first; the key is looked up;
  a key that is there ends the call (before \<^verbatim>\<open>defer spin.Enable()\<close> is reached, so nothing
  enables the spinner again); otherwise the key is recorded and the line is written, and
  the deferred \<^verbatim>\<open>spin.Enable()\<close> runs when the call returns. The condition of the first
  branch is \<^verbatim>\<open>!progress.Final && false\<close>. \<open>None\<close>: \<^verbatim>\<open>formatURN\<close> panicked.
\<close>

definition printProgress :: "'v reducer \<Rightarrow> Progress \<Rightarrow> 'v reducer option" where
  "printProgress s progress =
     (let s1 = s\<lparr>spin := Disable (spin s)\<rparr>;
          dedupeKey = URN progress @ Label progress
      in
        if dedupeKey \<in> dedupe s1 then Some s1
        else
          let s2 = s1\<lparr>dedupe := insert dedupeKey (dedupe s1)\<rparr> in
          if \<not> Final progress \<and> False then
            do {
              shown \<leftarrow> formatURN (URN progress);
              let pending' =
                    map_assign (pending s2) (URN progress)
                      (''   '' @ pad11 (Label progress) @ '' '' @ shown);
                  suffix = ''  Deploying...'' @ [CHR 0x0A]
                             @ concat (map (\<lambda>(_, item). item @ [CHR 0x0A]) pending')
              in Some (s2\<lparr>pending := pending',
                          spin := Enable ((spin s2)\<lparr>Suffix := TrimRight_newlines suffix\<rparr>)\<rparr>)
            }
          else
            do {
              shown \<leftarrow> formatURN (URN progress);
              Some (s2\<lparr>terminal := terminal s2 @
                            [StatusLine (Color progress) (pad11 (Label progress)) shown
                               (if Duration progress \<noteq> 0 then Some (Duration progress) else None)
                               (if Message progress \<noteq> [] then Some (Message progress) else None)],
                        spin := Enable (spin s2)\<rparr>)
            })"

section \<open>The loop over the events\<close>

text \<open>How an iteration of the loop ends: \<^verbatim>\<open>continue\<close> (or the end of the body), or \<^verbatim>\<open>return false\<close>.\<close>

datatype 'v flow = Continue "'v reducer" | ReturnFalse "'v reducer"

definition stack_type :: string where
  "stack_type = ''pulumi:pulumi:Stack''"

definition timing_of :: "'v reducer \<Rightarrow> string \<Rightarrow> Time" where
  "timing_of s urn = (case timing s urn of None \<Rightarrow> 0 | Some t \<Rightarrow> t)"

text \<open>The loop of lines 313 to 322 over the lines of a diagnostic without identifier.\<close>

fun collect_lines :: "string list \<Rightarrow> string list \<Rightarrow> string list" where
  "collect_lines out [] = out"
| "collect_lines out (line # rest) =
     (let trimmed = TrimSpace line in
      if trimmed = [] then collect_lines out rest
      else collect_lines
             (out @ [if HasPrefix trimmed ''at'' then ''   '' @ trimmed else trimmed]) rest)"

text \<open>The short message of a diagnostic with identifier (lines 291 to 296).\<close>

definition short_message :: "string \<Rightarrow> string" where
  "short_message message =
     (let lines = Split message [CHR 0x0A] in
      if length lines > 2 then TrimSpace (last (Split (lines ! 1) '':''))
      else message)"

text \<open>Lines 288 to 329: the diagnostic of the event, when it has one.\<close>

definition on_Diagnostic :: "'v reducer \<Rightarrow> 'v stack_event \<Rightarrow> 'v flow option" where
  "on_Diagnostic s evt =
     (case DiagnosticEvent evt of
        None \<Rightarrow> Some (Continue s)
      | Some d \<Rightarrow>
          if Severity d = ''error'' then
            if diag_URN d \<noteq> [] then
              (let msg = short_message (diag_Message d);
                   s1 = s\<lparr>errors := errors s @ [\<lparr>Error = msg, err_URN = diag_URN d\<rparr>]\<rparr>
               in map_option Continue
                    (printProgress s1
                       \<lparr>Color = FgRed, Label = ''Error'', URN = diag_URN d, Final = True,
                        Message = msg, Duration = 0\<rparr>))
            else
              (let lines = Split (diag_Message d) [CHR 0x0A];
                   out = collect_lines [] lines
               in if length out > 1
                  then Some (Continue
                         (s\<lparr>errors := errors s @ [\<lparr>Error = Join out [CHR 0x0A], err_URN = []\<rparr>]\<rparr>))
                  else Some (Continue s))
          else Some (Continue s))"

text \<open>
  Lines 213 to 286: the outputs of a resource. The attribute map of the stack replaces
  \<^verbatim>\<open>outputs\<close> (\<open>None\<close> when \<^verbatim>\<open>Metadata.New\<close> is \<^verbatim>\<open>nil\<close>: the dereference panics). Only the first
  \<^verbatim>\<open>printProgress\<close> is followed by \<^verbatim>\<open>continue\<close>; after the others the body goes on to the
  diagnostic (\<^verbatim>\<open>ResOpFailedEvent\<close> has an empty body).
\<close>

definition final_line :: "Attribute \<Rightarrow> string \<Rightarrow> string \<Rightarrow> Duration \<Rightarrow> Progress" where
  "final_line c l urn duration =
     \<lparr>Color = c, Label = l, URN = urn, Final = True, Message = [], Duration = duration\<rparr>"

definition on_ResOutputs ::
  "ProgressMode \<Rightarrow> Time \<Rightarrow> 'v reducer \<Rightarrow> 'v stack_event \<Rightarrow> 'v flow option" where
  "on_ResOutputs mode now s evt =
     (case ResOutputsEvent evt of
        None \<Rightarrow> on_Diagnostic s evt
      | Some md \<Rightarrow>
          if Type md = stack_type \<and> Op md \<noteq> OpDelete then
            (case New md of
               None \<Rightarrow> None
             | Some new \<Rightarrow> Some (Continue (s\<lparr>outputs := Outputs new\<rparr>)))
          else
            let duration = Round (Since now (timing_of s (md_URN md))) Millisecond in
            if Op md = OpSame \<and> mode = ProgressModeRefresh then
              map_option Continue
                (printProgress s (final_line FgGreen ''Refreshed'' (md_URN md) duration))
            else
              do {
                s1 \<leftarrow> (if Op md = OpCreate
                       then printProgress s (final_line FgGreen ''Created'' (md_URN md) duration)
                       else Some s);
                s2 \<leftarrow> (if Op md = OpUpdate
                       then printProgress s1 (final_line FgGreen ''Updated'' (md_URN md) duration)
                       else Some s1);
                s3 \<leftarrow> (if Op md = OpDelete
                       then printProgress s2 (final_line FgRed ''Deleted'' (md_URN md) duration)
                       else Some s2);
                s4 \<leftarrow> (if Op md = OpDeleteReplaced
                       then printProgress s3 (final_line FgRed ''Deleted'' (md_URN md) duration)
                       else Some s3);
                s5 \<leftarrow> (if Op md = OpCreateReplacement
                       then printProgress s4 (final_line FgGreen ''Created'' (md_URN md) duration)
                       else Some s4);
                s6 \<leftarrow> (if Op md = OpReplace
                       then printProgress s5 (final_line FgGreen ''Created'' (md_URN md) duration)
                       else Some s5);
                on_Diagnostic s6 evt
              })"

text \<open>
  Lines 130 to 211: a resource is about to change. The time is recorded first, for the
  stack too; an operation that is none of the eight goes on to the next test of the body.
\<close>

definition pre_line :: "Attribute \<Rightarrow> string \<Rightarrow> string \<Rightarrow> Progress" where
  "pre_line c l urn =
     \<lparr>Color = c, Label = l, URN = urn, Final = False, Message = [], Duration = 0\<rparr>"

definition on_ResourcePre ::
  "ProgressMode \<Rightarrow> Time \<Rightarrow> 'v reducer \<Rightarrow> 'v stack_event \<Rightarrow> 'v flow option" where
  "on_ResourcePre mode now s evt =
     (case ResourcePreEvent evt of
        None \<Rightarrow> on_ResOutputs mode now s evt
      | Some md \<Rightarrow>
          let s1 = s\<lparr>timing := (timing s)(md_URN md \<mapsto> now)\<rparr> in
          if Type md = stack_type then Some (Continue s1)
          else if Op md = OpSame then
            map_option Continue
              (printProgress s1 ((pre_line FgHiBlack ''Skipped'' (md_URN md))\<lparr>Final := True\<rparr>))
          else if Op md = OpCreate then
            map_option Continue (printProgress s1 (pre_line FgYellow ''Creating'' (md_URN md)))
          else if Op md = OpUpdate then
            map_option Continue (printProgress s1 (pre_line FgYellow ''Updating'' (md_URN md)))
          else if Op md = OpCreateReplacement then
            map_option Continue (printProgress s1 (pre_line FgYellow ''Creating'' (md_URN md)))
          else if Op md = OpDeleteReplaced then
            map_option Continue (printProgress s1 (pre_line FgYellow ''Deleting'' (md_URN md)))
          else if Op md = OpReplace then
            map_option Continue (printProgress s1 (pre_line FgYellow ''Creating'' (md_URN md)))
          else if Op md = OpDelete then
            map_option Continue (printProgress s1 (pre_line FgYellow ''Deleting'' (md_URN md)))
          else if Op md = OpRefresh then
            map_option Continue (printProgress s1 (pre_line FgYellow ''Refreshing'' (md_URN md)))
          else on_ResOutputs mode now s1 evt)"

definition concurrent_update_message :: string where
  "concurrent_update_message =
     ''Concurrent update detected, run `sst cancel` to delete lock file and retry.''"

text \<open>The body of the loop (lines 114 to 329), for one event and the clock's reading.\<close>

definition handle ::
  "ProgressMode \<Rightarrow> Time \<Rightarrow> 'v reducer \<Rightarrow> 'v stack_event \<Rightarrow> 'v flow option" where
  "handle mode now s evt =
     (let s1 = (if SummaryEvent evt \<noteq> None
                then s\<lparr>spin := (spin s)\<lparr>Suffix := ''  Finalizing...''\<rparr>\<rparr>
                else s)
      in
        if ConcurrentUpdateEvent evt \<noteq> None then
          Some (ReturnFalse
                  (s1\<lparr>spin := Disable (spin s1),
                      terminal := terminal s1 @ [TextLine concurrent_update_message]\<rparr>))
        else
          (case StdOutEvent evt of
             Some text \<Rightarrow>
               Some (Continue
                       (s1\<lparr>spin := Enable (Disable (spin s1)),
                           terminal := terminal s1 @ [TextLine text]\<rparr>))
           | None \<Rightarrow> on_ResourcePre mode now s1 evt))"

text \<open>
  The loop \<^verbatim>\<open>for evt := range events\<close>, over the events the channel delivers until it is
  closed, each with the reading of the clock. A panic or \<^verbatim>\<open>return false\<close> ends it.
\<close>

fun loop ::
  "ProgressMode \<Rightarrow> 'v reducer \<Rightarrow> (Time \<times> 'v stack_event) list \<Rightarrow> 'v flow option" where
  "loop mode s [] = Some (Continue s)"
| "loop mode s ((now, evt) # rest) =
     (case handle mode now s evt of
        None \<Rightarrow> None
      | Some (ReturnFalse s') \<Rightarrow> Some (ReturnFalse s')
      | Some (Continue s') \<Rightarrow> loop mode s' rest)"

text \<open>The lines of the failure report (lines 352 to 358).\<close>

fun report_errors :: "errorStatus list \<Rightarrow> (string option \<times> string) list option" where
  "report_errors [] = Some []"
| "report_errors (status # rest) =
     do {
       shown \<leftarrow> (if err_URN status \<noteq> [] then map_option Some (formatURN (err_URN status))
                 else Some None);
       more \<leftarrow> report_errors rest;
       Some ((shown, TrimSpace (Error status)) # more)
     }"

text \<open>
  \<^verbatim>\<open>progress\<close>: the value it returns and the state it leaves (the terminal with it), or \<open>None\<close>
  when it panics. The deferred \<^verbatim>\<open>spin.Stop()\<close> runs at each return.
\<close>

definition progress ::
  "ProgressMode \<Rightarrow> (Time \<times> 'v stack_event) list \<Rightarrow> (bool \<times> 'v reducer) option" where
  "progress mode events =
     (case loop mode (start mode) events of
        None \<Rightarrow> None
      | Some (ReturnFalse s) \<Rightarrow> Some (False, s\<lparr>spin := Stop (spin s)\<rparr>)
      | Some (Continue s) \<Rightarrow>
          let s1 = s\<lparr>spin := Stop (Stop (spin s))\<rparr> in
          if length (errors s1) = 0 then
            Some (True, s1\<lparr>terminal := terminal s1 @ [ReportComplete (outputs s1)]\<rparr>)
          else
            do {
              report \<leftarrow> report_errors (errors s1);
              Some (False, s1\<lparr>terminal := terminal s1 @ [ReportFailed report]\<rparr>)
            })"

section \<open>Events of one kind, well-formed identifiers\<close>

text \<open>An event of a single kind: the one pointer is set and the others are \<^verbatim>\<open>nil\<close>.\<close>

definition no_event :: "'v stack_event" where
  "no_event =
     \<lparr>SummaryEvent = None, ConcurrentUpdateEvent = None, StdOutEvent = None,
      ResourcePreEvent = None, ResOutputsEvent = None, ResOpFailedEvent = None,
      DiagnosticEvent = None\<rparr>"

definition ConcurrentUpdate :: "'v stack_event" where
  "ConcurrentUpdate = no_event\<lparr>ConcurrentUpdateEvent := Some ()\<rparr>"

definition ResourcePre :: "'v step_metadata \<Rightarrow> 'v stack_event" where
  "ResourcePre md = no_event\<lparr>ResourcePreEvent := Some md\<rparr>"

definition ResourceOutputs :: "'v step_metadata \<Rightarrow> 'v stack_event" where
  "ResourceOutputs md = no_event\<lparr>ResOutputsEvent := Some md\<rparr>"

definition Diagnostic :: "diagnostic \<Rightarrow> 'v stack_event" where
  "Diagnostic d = no_event\<lparr>DiagnosticEvent := Some d\<rparr>"

text \<open>
  An identifier of the engine has the form \<^verbatim>\<open>urn:pulumi:stack::project::type::name\<close>: four
  segments between double colons. An event is well formed when the identifiers it carries
  have four segments at least, and the outputs of the stack come with their state.
\<close>

definition urn_ok :: "string \<Rightarrow> bool" where
  "urn_ok urn = (4 \<le> length (Split urn ''::''))"

definition wellformed :: "'v stack_event \<Rightarrow> bool" where
  "wellformed evt =
     ((case ResourcePreEvent evt of None \<Rightarrow> True | Some md \<Rightarrow> urn_ok (md_URN md))
      \<and> (case ResOutputsEvent evt of
            None \<Rightarrow> True
          | Some md \<Rightarrow>
              if Type md = stack_type \<and> Op md \<noteq> OpDelete then New md \<noteq> None
              else urn_ok (md_URN md))
      \<and> (case DiagnosticEvent evt of
            None \<Rightarrow> True
          | Some d \<Rightarrow> diag_URN d = [] \<or> urn_ok (diag_URN d)))"

definition wellformed_stream :: "(Time \<times> 'v stack_event) list \<Rightarrow> bool" where
  "wellformed_stream events = list_all (\<lambda>(now, evt). wellformed evt) events"

definition has_ConcurrentUpdate :: "(Time \<times> 'v stack_event) list \<Rightarrow> bool" where
  "has_ConcurrentUpdate events =
     list_ex (\<lambda>(now, evt). ConcurrentUpdateEvent evt \<noteq> None) events"

definition is_root_outputs :: "'v stack_event \<Rightarrow> bool" where
  "is_root_outputs evt =
     (case ResOutputsEvent evt of
        None \<Rightarrow> False
      | Some md \<Rightarrow> Type md = stack_type \<and> Op md \<noteq> OpDelete)"

fun flow_state :: "'v flow \<Rightarrow> 'v reducer" where
  "flow_state (Continue s) = s"
| "flow_state (ReturnFalse s) = s"

text \<open>
  The two tables of the specification, from the operation to the label of the line: the
  one of \<^verbatim>\<open>ResourcePre\<close> and the one of \<^verbatim>\<open>ResourceOutputs\<close> (where the mode counts for the
  operation \<^verbatim>\<open>same\<close>).
\<close>

definition spec_pre_label :: "OpType \<Rightarrow> string option" where
  "spec_pre_label op =
     (if op = OpSame then Some ''Skipped''
      else if op = OpCreate \<or> op = OpCreateReplacement \<or> op = OpReplace then Some ''Creating''
      else if op = OpUpdate then Some ''Updating''
      else if op = OpDeleteReplaced \<or> op = OpDelete then Some ''Deleting''
      else if op = OpRefresh then Some ''Refreshing''
      else None)"

definition spec_outputs_label :: "ProgressMode \<Rightarrow> OpType \<Rightarrow> string option" where
  "spec_outputs_label mode op =
     (if op = OpSame then (if mode = ProgressModeRefresh then Some ''Refreshed'' else None)
      else if op = OpCreate \<or> op = OpCreateReplacement \<or> op = OpReplace then Some ''Created''
      else if op = OpUpdate then Some ''Updated''
      else if op = OpDelete \<or> op = OpDeleteReplaced then Some ''Deleted''
      else None)"

text \<open>The colour of the marker, which the specification's tables leave out.\<close>

definition spec_outputs_color :: "OpType \<Rightarrow> Attribute" where
  "spec_outputs_color op = (if op = OpDelete \<or> op = OpDeleteReplaced then FgRed else FgGreen)"

definition spec_pre_color :: "OpType \<Rightarrow> Attribute" where
  "spec_pre_color op = (if op = OpSame then FgHiBlack else FgYellow)"

text \<open>
  Every error with an identifier has one that \<^verbatim>\<open>formatURN\<close> formats: what the final report
  needs of the errors.
\<close>

definition errors_ok :: "'v reducer \<Rightarrow> bool" where
  "errors_ok s = list_all (\<lambda>status. err_URN status = [] \<or> urn_ok (err_URN status)) (errors s)"

section \<open>Auxiliary definitions\<close>

text \<open>
  The state with another suffix of the spinner, a function applied to the state an
  iteration ends with, and the streams the examples use.
\<close>

definition with_suffix :: "string \<Rightarrow> 'v reducer \<Rightarrow> 'v reducer" where
  "with_suffix x s = s\<lparr>spin := (spin s)\<lparr>Suffix := x\<rparr>\<rparr>"

fun on_state :: "('v reducer \<Rightarrow> 'v reducer) \<Rightarrow> 'v flow \<Rightarrow> 'v flow" where
  "on_state f (Continue s) = Continue (f s)"
| "on_state f (ReturnFalse s) = ReturnFalse (f s)"

definition simple_create :: "(Time \<times> unit stack_event) list" where
  "simple_create =
     [(1000, ResourcePre
               \<lparr>Op = OpCreate, md_URN = ''urn:pulumi:dev::app::aws:s3/bucket:Bucket::Assets'',
                Type = ''aws:s3/bucket:Bucket'', New = None\<rparr>),
      (5001500000, ResourceOutputs
               \<lparr>Op = OpCreate, md_URN = ''urn:pulumi:dev::app::aws:s3/bucket:Bucket::Assets'',
                Type = ''aws:s3/bucket:Bucket'', New = None\<rparr>)]"

definition api_failed :: "unit stack_event" where
  "api_failed =
     Diagnostic \<lparr>diag_URN = ''urn:pulumi:dev::app::aws:lambda/function:Function::Api'',
                 diag_Message = ''line1\<newline>ERROR: boom\<newline>line3'', Severity = ''error''\<rparr>"

definition api_updating :: "unit stack_event" where
  "api_updating =
     ResourcePre \<lparr>Op = OpUpdate,
                  md_URN = ''urn:pulumi:dev::app::aws:lambda/function:Function::Api'',
                  Type = ''aws:lambda/function:Function'', New = None\<rparr>"

section \<open>Lemmas: the parts of the loop\<close>

lemma Split_nonempty: "Split s sep \<noteq> []"
  by (induction s sep rule: Split.induct) (auto split: list.splits)

lemma formatURN_defined: "(formatURN urn \<noteq> None) = urn_ok urn"
proof -
  have "length (drop 2 (Split urn ''::'')) = length (Split urn ''::'') - 2"
    by simp
  then show ?thesis
    unfolding formatURN_def urn_ok_def Let_def
    by (cases "drop 2 (Split urn ''::'')" rule: remdups_adj.cases)
       (auto split: prod.splits option.splits)
qed

lemma printProgress_seen:
  "URN p @ Label p \<in> dedupe s \<Longrightarrow> printProgress s p = Some (s\<lparr>spin := Disable (spin s)\<rparr>)"
  by (simp add: printProgress_def Let_def)

lemma printProgress_fresh:
  "URN p @ Label p \<notin> dedupe s \<Longrightarrow>
   printProgress s p =
     (case formatURN (URN p) of
        None \<Rightarrow> None
      | Some shown \<Rightarrow>
          Some (s\<lparr>spin := Enable (Disable (spin s)),
                  dedupe := insert (URN p @ Label p) (dedupe s),
                  terminal := terminal s @
                    [StatusLine (Color p) (pad11 (Label p)) shown
                       (if Duration p \<noteq> 0 then Some (Duration p) else None)
                       (if Message p \<noteq> [] then Some (Message p) else None)]\<rparr>))"
  by (simp add: printProgress_def Let_def split: option.splits)

lemma printProgress_frame:
  assumes "printProgress s p = Some s'"
  shows "errors s' = errors s" and "outputs s' = outputs s" and "timing s' = timing s"
    and "pending s' = pending s"
  using assms
  by (cases "URN p @ Label p \<in> dedupe s";
      auto simp: printProgress_seen printProgress_fresh split: option.splits)+

lemma printProgress_defined:
  assumes "urn_ok (URN p)"
  shows "\<exists>s'. printProgress s p = Some s'"
proof -
  from assms obtain shown where "formatURN (URN p) = Some shown"
    using formatURN_defined [of "URN p"] by auto
  then show ?thesis
    by (cases "URN p @ Label p \<in> dedupe s")
       (simp_all add: printProgress_seen printProgress_fresh)
qed

lemma printProgress_errors_ok:
  "printProgress s p = Some s' \<Longrightarrow> errors_ok s' = errors_ok s"
  by (simp add: errors_ok_def printProgress_frame)

lemma on_Diagnostic_wellformed:
  assumes wf: "case DiagnosticEvent evt of None \<Rightarrow> True | Some d \<Rightarrow> diag_URN d = [] \<or> urn_ok (diag_URN d)"
    and ok: "errors_ok s"
  shows "\<exists>s'. on_Diagnostic s evt = Some (Continue s') \<and> errors_ok s'"
proof (cases "DiagnosticEvent evt")
  case None
  with ok show ?thesis by (simp add: on_Diagnostic_def)
next
  case (Some d)
  show ?thesis
  proof (cases "Severity d = ''error'' \<and> diag_URN d \<noteq> []")
    case True
    let ?s1 = "s\<lparr>errors := errors s @ [\<lparr>Error = short_message (diag_Message d), err_URN = diag_URN d\<rparr>]\<rparr>"
    let ?p = "\<lparr>Color = FgRed, Label = ''Error'', URN = diag_URN d, Final = True,
               Message = short_message (diag_Message d), Duration = 0\<rparr>"
    from True wf Some have u: "urn_ok (diag_URN d)" by simp
    then have ok1: "errors_ok ?s1" using ok by (simp add: errors_ok_def)
    from u obtain s' where p: "printProgress ?s1 ?p = Some s'"
      using printProgress_defined [of ?p ?s1] by auto
    with ok1 have "errors_ok s'" by (simp add: printProgress_errors_ok)
    with p True Some show ?thesis by (simp add: on_Diagnostic_def Let_def)
  next
    case False
    with ok Some show ?thesis
      by (auto simp: on_Diagnostic_def Let_def errors_ok_def)
  qed
qed

lemma on_ResOutputs_root:
  assumes "ResOutputsEvent evt = Some md" and "Type md = stack_type" and "Op md \<noteq> OpDelete"
  shows "on_ResOutputs mode now s evt =
           (case New md of None \<Rightarrow> None | Some new \<Rightarrow> Some (Continue (s\<lparr>outputs := Outputs new\<rparr>)))"
  using assms by (simp add: on_ResOutputs_def)

lemma on_ResOutputs_table:
  assumes "ResOutputsEvent evt = Some md" and "\<not> (Type md = stack_type \<and> Op md \<noteq> OpDelete)"
  shows "on_ResOutputs mode now s evt =
           (case spec_outputs_label mode (Op md) of
              None \<Rightarrow> on_Diagnostic s evt
            | Some l \<Rightarrow>
                (let line = final_line (spec_outputs_color (Op md)) l (md_URN md)
                              (Round (Since now (timing_of s (md_URN md))) Millisecond)
                 in if Op md = OpSame then map_option Continue (printProgress s line)
                    else Option.bind (printProgress s line) (\<lambda>s'. on_Diagnostic s' evt)))"
proof -
  have unfold: "on_ResOutputs mode now s evt =
      (let duration = Round (Since now (timing_of s (md_URN md))) Millisecond in
            if Op md = OpSame \<and> mode = ProgressModeRefresh then
              map_option Continue
                (printProgress s (final_line FgGreen ''Refreshed'' (md_URN md) duration))
            else
              do {
                s1 \<leftarrow> (if Op md = OpCreate
                       then printProgress s (final_line FgGreen ''Created'' (md_URN md) duration)
                       else Some s);
                s2 \<leftarrow> (if Op md = OpUpdate
                       then printProgress s1 (final_line FgGreen ''Updated'' (md_URN md) duration)
                       else Some s1);
                s3 \<leftarrow> (if Op md = OpDelete
                       then printProgress s2 (final_line FgRed ''Deleted'' (md_URN md) duration)
                       else Some s2);
                s4 \<leftarrow> (if Op md = OpDeleteReplaced
                       then printProgress s3 (final_line FgRed ''Deleted'' (md_URN md) duration)
                       else Some s3);
                s5 \<leftarrow> (if Op md = OpCreateReplacement
                       then printProgress s4 (final_line FgGreen ''Created'' (md_URN md) duration)
                       else Some s4);
                s6 \<leftarrow> (if Op md = OpReplace
                       then printProgress s5 (final_line FgGreen ''Created'' (md_URN md) duration)
                       else Some s5);
                on_Diagnostic s6 evt
              })"
    using assms by (auto simp: on_ResOutputs_def)
  show ?thesis
    unfolding unfold
    by (cases "Op md"; cases "mode = ProgressModeRefresh";
        simp add: spec_outputs_label_def spec_outputs_color_def Let_def)
qed

lemma on_ResourcePre_root:
  assumes "ResourcePreEvent evt = Some md" and "Type md = stack_type"
  shows "on_ResourcePre mode now s evt = Some (Continue (s\<lparr>timing := (timing s)(md_URN md \<mapsto> now)\<rparr>))"
  using assms by (simp add: on_ResourcePre_def)

lemma on_ResourcePre_table:
  assumes "ResourcePreEvent evt = Some md" and "Type md \<noteq> stack_type"
  shows "on_ResourcePre mode now s evt =
           (case spec_pre_label (Op md) of
              None \<Rightarrow> on_ResOutputs mode now (s\<lparr>timing := (timing s)(md_URN md \<mapsto> now)\<rparr>) evt
            | Some l \<Rightarrow>
                map_option Continue
                  (printProgress (s\<lparr>timing := (timing s)(md_URN md \<mapsto> now)\<rparr>)
                     ((pre_line (spec_pre_color (Op md)) l (md_URN md))\<lparr>Final := (Op md = OpSame)\<rparr>)))"
  using assms
  by (cases "Op md";
      simp add: on_ResourcePre_def spec_pre_label_def spec_pre_color_def Let_def pre_line_def)

lemma final_line_URN [simp]: "URN (final_line c l urn d) = urn"
  by (simp add: final_line_def)

lemma pre_line_URN [simp]: "URN (pre_line c l urn) = urn"
  by (simp add: pre_line_def)

lemma on_ResOutputs_wellformed:
  assumes wf: "wellformed evt" and ok: "errors_ok s"
  shows "\<exists>s'. on_ResOutputs mode now s evt = Some (Continue s') \<and> errors_ok s'"
proof -
  from wf have wd: "case DiagnosticEvent evt of None \<Rightarrow> True
                    | Some d \<Rightarrow> diag_URN d = [] \<or> urn_ok (diag_URN d)"
    by (simp add: wellformed_def)
  show ?thesis
  proof (cases "ResOutputsEvent evt")
    case None
    then show ?thesis
      using on_Diagnostic_wellformed [OF wd ok] by (simp add: on_ResOutputs_def)
  next
    case (Some md)
    show ?thesis
    proof (cases "Type md = stack_type \<and> Op md \<noteq> OpDelete")
      case True
      with wf Some obtain new where "New md = Some new"
        by (auto simp: wellformed_def)
      with True Some ok show ?thesis
        by (simp add: on_ResOutputs_root errors_ok_def)
    next
      case False
      with wf Some have u: "urn_ok (md_URN md)"
        by (auto simp: wellformed_def)
      show ?thesis
      proof (cases "spec_outputs_label mode (Op md)")
        case None
        with Some False show ?thesis
          using on_Diagnostic_wellformed [OF wd ok] by (simp add: on_ResOutputs_table)
      next
        case (Some l)
        let ?line = "final_line (spec_outputs_color (Op md)) l (md_URN md)
                       (Round (Since now (timing_of s (md_URN md))) Millisecond)"
        from u obtain s1 where p: "printProgress s ?line = Some s1"
          using printProgress_defined [of ?line s] by auto
        with ok have ok1: "errors_ok s1" by (simp add: printProgress_errors_ok)
        from on_Diagnostic_wellformed [OF wd ok1] obtain s2
          where "on_Diagnostic s1 evt = Some (Continue s2)" and "errors_ok s2" by blast
        with p ok1 Some False \<open>ResOutputsEvent evt = Some md\<close> show ?thesis
          by (cases "Op md = OpSame") (simp_all add: on_ResOutputs_table Let_def)
      qed
    qed
  qed
qed

lemma errors_ok_timing [simp]: "errors_ok (s\<lparr>timing := t\<rparr>) = errors_ok s"
  by (simp add: errors_ok_def)

lemma on_ResourcePre_wellformed:
  assumes wf: "wellformed evt" and ok: "errors_ok s"
  shows "\<exists>s'. on_ResourcePre mode now s evt = Some (Continue s') \<and> errors_ok s'"
proof (cases "ResourcePreEvent evt")
  case None
  then show ?thesis
    using on_ResOutputs_wellformed [OF wf ok] by (simp add: on_ResourcePre_def)
next
  case (Some md)
  let ?s1 = "s\<lparr>timing := (timing s)(md_URN md \<mapsto> now)\<rparr>"
  from ok have ok1: "errors_ok ?s1" by simp
  show ?thesis
  proof (cases "Type md = stack_type")
    case True
    with Some ok1 show ?thesis by (simp add: on_ResourcePre_root)
  next
    case False
    from wf Some have u: "urn_ok (md_URN md)" by (simp add: wellformed_def)
    show ?thesis
    proof (cases "spec_pre_label (Op md)")
      case None
      with Some False show ?thesis
        using on_ResOutputs_wellformed [OF wf ok1] by (simp add: on_ResourcePre_table)
    next
      case (Some l)
      let ?line = "(pre_line (spec_pre_color (Op md)) l (md_URN md))\<lparr>Final := (Op md = OpSame)\<rparr>"
      from u obtain s2 where p: "printProgress ?s1 ?line = Some s2"
        using printProgress_defined [of ?line ?s1] by auto
      with ok1 have "errors_ok s2" by (simp add: printProgress_errors_ok)
      with p Some False \<open>ResourcePreEvent evt = Some md\<close> show ?thesis
        by (simp add: on_ResourcePre_table)
    qed
  qed
qed

lemma errors_ok_spin [simp]: "errors_ok (s\<lparr>spin := sp\<rparr>) = errors_ok s"
  by (simp add: errors_ok_def)

lemma errors_ok_terminal [simp]: "errors_ok (s\<lparr>terminal := tm\<rparr>) = errors_ok s"
  by (simp add: errors_ok_def)

lemma handle_wellformed:
  assumes wf: "wellformed evt" and ok: "errors_ok s"
  shows "\<exists>s'. errors_ok s' \<and>
           handle mode now s evt =
             Some (if ConcurrentUpdateEvent evt \<noteq> None then ReturnFalse s' else Continue s')"
proof -
  let ?s1 = "if SummaryEvent evt \<noteq> None
             then s\<lparr>spin := (spin s)\<lparr>Suffix := ''  Finalizing...''\<rparr>\<rparr> else s"
  from ok have ok1: "errors_ok ?s1" by simp
  show ?thesis
  proof (cases "ConcurrentUpdateEvent evt \<noteq> None")
    case True
    with ok1 show ?thesis by (auto simp: handle_def Let_def)
  next
    case False
    show ?thesis
    proof (cases "StdOutEvent evt")
      case None
      with False show ?thesis
        using on_ResourcePre_wellformed [OF wf ok1, of mode now]
        by (auto simp: handle_def Let_def)
    next
      case (Some written)
      with False ok1 show ?thesis by (auto simp: handle_def Let_def)
    qed
  qed
qed

lemma loop_append:
  "loop mode s (xs @ ys) =
     (case loop mode s xs of
        Some (Continue s') \<Rightarrow> loop mode s' ys
      | r \<Rightarrow> r)"
  by (induction xs arbitrary: s) (auto split: option.splits flow.splits)

lemma loop_wellformed:
  assumes "wellformed_stream events" and "errors_ok s"
  shows "\<exists>s'. errors_ok s' \<and>
           loop mode s events =
             Some (if has_ConcurrentUpdate events then ReturnFalse s' else Continue s')"
  using assms
proof (induction events arbitrary: s)
  case Nil
  then show ?case by (simp add: has_ConcurrentUpdate_def)
next
  case (Cons x events)
  obtain now evt where x: "x = (now, evt)" by (cases x)
  from Cons.prems x have wf: "wellformed evt" and wfs: "wellformed_stream events"
    by (simp_all add: wellformed_stream_def)
  from handle_wellformed [OF wf Cons.prems(2), of mode now] obtain s1
    where ok1: "errors_ok s1"
      and h: "handle mode now s evt =
                Some (if ConcurrentUpdateEvent evt \<noteq> None then ReturnFalse s1 else Continue s1)"
    by blast
  show ?case
  proof (cases "ConcurrentUpdateEvent evt \<noteq> None")
    case True
    with h ok1 x show ?thesis by (auto simp: has_ConcurrentUpdate_def)
  next
    case False
    from Cons.IH [OF wfs ok1] obtain s' where
      "errors_ok s'" and
      "loop mode s1 events =
         Some (if has_ConcurrentUpdate events then ReturnFalse s' else Continue s')"
      by blast
    with False h x show ?thesis by (auto simp: has_ConcurrentUpdate_def)
  qed
qed

lemma report_errors_defined:
  "list_all (\<lambda>status. err_URN status = [] \<or> urn_ok (err_URN status)) es \<Longrightarrow>
   \<exists>report. report_errors es = Some report"
proof (induction es)
  case Nil
  then show ?case by simp
next
  case (Cons e es)
  then obtain more where m: "report_errors es = Some more" by auto
  from Cons.prems have "err_URN e = [] \<or> urn_ok (err_URN e)" by simp
  then show ?case
  proof
    assume "err_URN e = []"
    with m show ?thesis by simp
  next
    assume "urn_ok (err_URN e)"
    then obtain shown where "formatURN (err_URN e) = Some shown"
      using formatURN_defined [of "err_URN e"] by auto
    with m show ?thesis by simp
  qed
qed

lemma errors_ok_start: "errors_ok (start mode)"
  by (simp add: errors_ok_def start_def)

lemma handle_ConcurrentUpdate:
  "ConcurrentUpdateEvent evt \<noteq> None \<Longrightarrow> \<exists>s'. handle mode now s evt = Some (ReturnFalse s')"
  by (simp add: handle_def Let_def)

lemma loop_stops_at_ConcurrentUpdate:
  assumes "ConcurrentUpdateEvent evt \<noteq> None"
  shows "loop mode s (before @ (now, evt) # after) = loop mode s (before @ [(now, evt)])"
proof -
  have "loop mode s' ((now, evt) # after) = loop mode s' [(now, evt)]" for s'
    using handle_ConcurrentUpdate [OF assms, of mode now s'] by auto
  then show ?thesis
    by (simp add: loop_append split: option.splits flow.splits)
qed

lemma handle_ResourceOutputs:
  "handle mode now s (ResourceOutputs md) = on_ResOutputs mode now s (ResourceOutputs md)"
  by (simp add: handle_def on_ResourcePre_def ResourceOutputs_def no_event_def)

lemma on_Diagnostic_ResourceOutputs:
  "on_Diagnostic s (ResourceOutputs md) = Some (Continue s)"
  by (simp add: on_Diagnostic_def ResourceOutputs_def no_event_def)

lemma ResOutputsEvent_ResourceOutputs: "ResOutputsEvent (ResourceOutputs md) = Some md"
  by (simp add: ResourceOutputs_def no_event_def)

lemma on_Diagnostic_outputs:
  assumes "on_Diagnostic s evt = Some fl"
  shows "outputs (flow_state fl) = outputs s"
proof (cases "DiagnosticEvent evt")
  case None
  with assms show ?thesis by (auto simp: on_Diagnostic_def)
next
  case (Some d)
  with assms show ?thesis
    by (auto simp: on_Diagnostic_def Let_def printProgress_frame split: if_splits)
qed

lemma on_ResOutputs_outputs:
  assumes "\<not> is_root_outputs evt" and "on_ResOutputs mode now s evt = Some fl"
  shows "outputs (flow_state fl) = outputs s"
proof (cases "ResOutputsEvent evt")
  case None
  with assms show ?thesis by (simp add: on_ResOutputs_def on_Diagnostic_outputs)
next
  case (Some md)
  with assms(1) have nr: "\<not> (Type md = stack_type \<and> Op md \<noteq> OpDelete)"
    by (simp add: is_root_outputs_def)
  show ?thesis
  proof (cases "spec_outputs_label mode (Op md)")
    case None
    with assms(2) Some nr show ?thesis
      by (simp add: on_ResOutputs_table on_Diagnostic_outputs)
  next
    case l: (Some l)
    with assms(2) Some nr show ?thesis
      by (cases "Op md = OpSame")
         (auto simp: on_ResOutputs_table Let_def printProgress_frame
               dest!: on_Diagnostic_outputs split: Option.bind_splits)
  qed
qed

lemma on_ResourcePre_outputs:
  assumes "\<not> is_root_outputs evt" and "on_ResourcePre mode now s evt = Some fl"
  shows "outputs (flow_state fl) = outputs s"
proof (cases "ResourcePreEvent evt")
  case None
  with assms show ?thesis by (simp add: on_ResourcePre_def on_ResOutputs_outputs)
next
  case (Some md)
  show ?thesis
  proof (cases "Type md = stack_type")
    case True
    with assms(2) Some show ?thesis by (auto simp: on_ResourcePre_root)
  next
    case False
    show ?thesis
    proof (cases "spec_pre_label (Op md)")
      case None
      with assms Some False show ?thesis
        by (auto simp: on_ResourcePre_table dest!: on_ResOutputs_outputs)
    next
      case l: (Some l)
      with assms(2) Some False show ?thesis
        by (auto simp: on_ResourcePre_table printProgress_frame)
    qed
  qed
qed

lemma handle_outputs:
  assumes "\<not> is_root_outputs evt" and "handle mode now s evt = Some fl"
  shows "outputs (flow_state fl) = outputs s"
proof (cases "ConcurrentUpdateEvent evt \<noteq> None \<or> StdOutEvent evt \<noteq> None")
  case True
  with assms(2) show ?thesis
    by (auto simp: handle_def Let_def split: if_splits option.splits)
next
  case False
  with assms(2) have "on_ResourcePre mode now
      (if SummaryEvent evt \<noteq> None then s\<lparr>spin := (spin s)\<lparr>Suffix := ''  Finalizing...''\<rparr>\<rparr> else s)
      evt = Some fl"
    by (auto simp: handle_def Let_def)
  from on_ResourcePre_outputs [OF assms(1) this] show ?thesis
    by (simp split: if_splits)
qed

lemma loop_outputs:
  assumes "list_all (\<lambda>(now, evt). \<not> is_root_outputs evt) events"
    and "loop mode s events = Some fl"
  shows "outputs (flow_state fl) = outputs s"
  using assms
proof (induction events arbitrary: s)
  case Nil
  then show ?case by auto
next
  case (Cons x events)
  obtain now evt where x: "x = (now, evt)" by (cases x)
  from Cons.prems x have nr: "\<not> is_root_outputs evt"
    and rest: "list_all (\<lambda>(now, evt). \<not> is_root_outputs evt) events"
    by simp_all
  from Cons.prems(2) x obtain fl1 where h: "handle mode now s evt = Some fl1"
    by (auto split: option.splits)
  show ?case
  proof (cases fl1)
    case (Continue s1)
    with h Cons.prems(2) x have "loop mode s1 events = Some fl" by simp
    from Cons.IH [OF rest this] handle_outputs [OF nr h] Continue show ?thesis by simp
  next
    case (ReturnFalse s1)
    with h Cons.prems(2) x have "fl = ReturnFalse s1" by simp
    with handle_outputs [OF nr h] ReturnFalse show ?thesis by simp
  qed
qed

lemma progress_outputs:
  assumes "progress mode events = Some (b, s)"
  shows "\<exists>fl. loop mode (start mode) events = Some fl \<and> outputs s = outputs (flow_state fl)"
  using assms
  by (auto simp: progress_def Let_def split: option.splits flow.splits if_splits Option.bind_splits)

lemma progress_returns:
  assumes "wellformed_stream events"
  shows "\<exists>b s. progress mode events = Some (b, s)"
proof -
  from loop_wellformed [OF assms errors_ok_start, of mode] obtain s' where
    ok: "errors_ok s'" and
    l: "loop mode (start mode) events =
          Some (if has_ConcurrentUpdate events then ReturnFalse s' else Continue s')"
    by blast
  from ok obtain report where "report_errors (errors s') = Some report"
    using report_errors_defined [of "errors s'"] by (auto simp: errors_ok_def)
  with l show ?thesis
    by (cases "has_ConcurrentUpdate events"; cases "errors s' = []")
       (auto simp: progress_def Let_def)
qed

lemma wellformed_stream_append:
  "wellformed_stream (xs @ ys) = (wellformed_stream xs \<and> wellformed_stream ys)"
  by (simp add: wellformed_stream_def)

lemma wellformed_stream_Cons:
  "wellformed_stream ((now, evt) # ys) = (wellformed evt \<and> wellformed_stream ys)"
  by (simp add: wellformed_stream_def)

lemma handle_Diagnostic:
  "handle mode now s (Diagnostic d) = on_Diagnostic s (Diagnostic d)"
  by (simp add: handle_def on_ResourcePre_def on_ResOutputs_def Diagnostic_def no_event_def)

lemma DiagnosticEvent_Diagnostic: "DiagnosticEvent (Diagnostic d) = Some d"
  by (simp add: Diagnostic_def no_event_def)

lemma with_suffix_twice [simp]: "with_suffix y (with_suffix x s) = with_suffix y s"
  by (simp add: with_suffix_def)

lemma Disable_Suffix: "Disable (sp\<lparr>Suffix := x\<rparr>) = (Disable sp)\<lparr>Suffix := x\<rparr>"
  by (simp add: Disable_def Stop_def)

lemma Enable_Suffix: "Enable (sp\<lparr>Suffix := x\<rparr>) = (Enable sp)\<lparr>Suffix := x\<rparr>"
  by (simp add: Enable_def Restart_def Start_def Stop_def)

lemma Stop_Suffix: "Stop (sp\<lparr>Suffix := x\<rparr>) = (Stop sp)\<lparr>Suffix := x\<rparr>"
  by (simp add: Stop_def)

lemma Start_Suffix: "Start (sp\<lparr>Suffix := x\<rparr>) = (Start sp)\<lparr>Suffix := x\<rparr>"
  by (simp add: Start_def)

lemma printProgress_with_suffix:
  "printProgress (with_suffix x s) p = map_option (with_suffix x) (printProgress s p)"
  by (cases "URN p @ Label p \<in> dedupe s")
     (auto simp: printProgress_seen printProgress_fresh with_suffix_def Disable_Suffix
        Enable_Suffix split: option.splits)

lemma with_suffix_fields [simp]:
  "errors (with_suffix x s) = errors s"
  "outputs (with_suffix x s) = outputs s"
  "timing (with_suffix x s) = timing s"
  "dedupe (with_suffix x s) = dedupe s"
  "pending (with_suffix x s) = pending s"
  "terminal (with_suffix x s) = terminal s"
  "enabled (spin (with_suffix x s)) = enabled (spin s)"
  "active (spin (with_suffix x s)) = active (spin s)"
  by (simp_all add: with_suffix_def)

lemma with_suffix_updates:
  "(with_suffix x s)\<lparr>errors := e\<rparr> = with_suffix x (s\<lparr>errors := e\<rparr>)"
  "(with_suffix x s)\<lparr>outputs := ou\<rparr> = with_suffix x (s\<lparr>outputs := ou\<rparr>)"
  "(with_suffix x s)\<lparr>timing := tm\<rparr> = with_suffix x (s\<lparr>timing := tm\<rparr>)"
  "(with_suffix x s)\<lparr>terminal := tm'\<rparr> = with_suffix x (s\<lparr>terminal := tm'\<rparr>)"
  by (simp_all add: with_suffix_def)

lemma timing_of_with_suffix [simp]: "timing_of (with_suffix x s) urn = timing_of s urn"
  by (simp add: timing_of_def)

lemma on_Diagnostic_with_suffix:
  "on_Diagnostic (with_suffix x s) evt = map_option (on_state (with_suffix x)) (on_Diagnostic s evt)"
proof (cases "DiagnosticEvent evt")
  case None
  then show ?thesis by (simp add: on_Diagnostic_def)
next
  case (Some d)
  then show ?thesis
    by (simp add: on_Diagnostic_def Let_def with_suffix_updates printProgress_with_suffix
          option.map_comp comp_def)
qed

lemma on_ResOutputs_with_suffix:
  "on_ResOutputs mode now (with_suffix x s) evt =
     map_option (on_state (with_suffix x)) (on_ResOutputs mode now s evt)"
proof (cases "ResOutputsEvent evt")
  case None
  then show ?thesis by (simp add: on_ResOutputs_def on_Diagnostic_with_suffix)
next
  case (Some md)
  show ?thesis
  proof (cases "Type md = stack_type \<and> Op md \<noteq> OpDelete")
    case True
    with Some show ?thesis
      by (cases "New md") (simp_all add: on_ResOutputs_root with_suffix_updates)
  next
    case False
    show ?thesis
    proof (cases "spec_outputs_label mode (Op md)")
      case None
      with Some False show ?thesis
        by (simp add: on_ResOutputs_table on_Diagnostic_with_suffix)
    next
      case l: (Some l)
      let ?line = "final_line (spec_outputs_color (Op md)) l (md_URN md)
                     (Round (Since now (timing_of s (md_URN md))) Millisecond)"
      show ?thesis
      proof (cases "Op md = OpSame")
        case True
        with l Some False show ?thesis
          by (simp add: on_ResOutputs_table Let_def printProgress_with_suffix
                option.map_comp comp_def)
      next
        case ns: False
        with l Some False show ?thesis
          by (cases "printProgress s ?line")
             (simp_all add: on_ResOutputs_table Let_def printProgress_with_suffix
                on_Diagnostic_with_suffix)
      qed
    qed
  qed
qed

lemma on_ResourcePre_with_suffix:
  "on_ResourcePre mode now (with_suffix x s) evt =
     map_option (on_state (with_suffix x)) (on_ResourcePre mode now s evt)"
proof (cases "ResourcePreEvent evt")
  case None
  then show ?thesis by (simp add: on_ResourcePre_def on_ResOutputs_with_suffix)
next
  case (Some md)
  show ?thesis
  proof (cases "Type md = stack_type")
    case True
    with Some show ?thesis by (simp add: on_ResourcePre_root with_suffix_updates)
  next
    case False
    with Some show ?thesis
      by (cases "spec_pre_label (Op md)")
         (simp_all add: on_ResourcePre_table with_suffix_updates on_ResOutputs_with_suffix
            printProgress_with_suffix option.map_comp comp_def)
  qed
qed

lemma on_state_twice:
  "on_state (with_suffix z) (on_state (with_suffix x) fl) = on_state (with_suffix z) fl"
  by (cases fl) simp_all

lemma handle_with_suffix:
  "map_option (on_state (with_suffix z)) (handle mode now (with_suffix x s) evt) =
   map_option (on_state (with_suffix z)) (handle mode now s evt)"
proof -
  have fin: "(with_suffix x s)\<lparr>spin := (spin (with_suffix x s))\<lparr>Suffix := y\<rparr>\<rparr> = with_suffix y s"
    for y by (simp add: with_suffix_def)
  have fin': "s\<lparr>spin := (spin s)\<lparr>Suffix := y\<rparr>\<rparr> = with_suffix y s"
    for y by (simp add: with_suffix_def)
  have cu: "with_suffix z (t\<lparr>spin := Disable (spin t), terminal := tm'\<rparr>)
              = with_suffix z ((with_suffix y t)\<lparr>spin := Disable (spin (with_suffix y t)), terminal := tm'\<rparr>)"
    for t :: "'a reducer" and tm' y
    by (simp add: with_suffix_def Disable_Suffix)
  have so: "with_suffix z (t\<lparr>spin := Enable (Disable (spin t)), terminal := tm'\<rparr>)
              = with_suffix z ((with_suffix y t)\<lparr>spin := Enable (Disable (spin (with_suffix y t))), terminal := tm'\<rparr>)"
    for t :: "'a reducer" and tm' y
    by (simp add: with_suffix_def Disable_Suffix Enable_Suffix)
  show ?thesis
  proof (cases "SummaryEvent evt \<noteq> None")
    case True
    then show ?thesis by (simp add: handle_def Let_def fin fin')
  next
    case False
    show ?thesis
    proof (cases "ConcurrentUpdateEvent evt \<noteq> None")
      case True
      with False show ?thesis
        using cu [where t = s and y = x and tm' = "terminal s @ [TextLine concurrent_update_message]"]
        by (simp add: handle_def Let_def)
    next
      case ncu: False
      show ?thesis
      proof (cases "StdOutEvent evt")
        case None
        with False ncu show ?thesis
          by (cases "on_ResourcePre mode now s evt")
             (simp_all add: handle_def Let_def on_ResourcePre_with_suffix on_state_twice)
      next
        case (Some written)
        with False ncu show ?thesis
          using so [where t = s and y = x and tm' = "terminal s @ [TextLine written]"]
          by (simp add: handle_def Let_def)
      qed
    qed
  qed
qed

lemma with_suffix_eqD:
  assumes "with_suffix z a = with_suffix z b"
  shows "a = with_suffix (Suffix (spin a)) b"
proof -
  from assms have "spin (with_suffix z a) = spin (with_suffix z b)" by simp
  then have sp: "enabled (spin a) = enabled (spin b)" "active (spin a) = active (spin b)"
    by (simp_all add: with_suffix_def) (metis spinner.select_convs spinner.surjective
        spinner.update_convs)+
  from assms have rest: "pending a = pending b" "dedupe a = dedupe b" "timing a = timing b"
    "errors a = errors b" "outputs a = outputs b" "terminal a = terminal b"
    by (metis with_suffix_fields)+
  from sp have "spin a = (spin b)\<lparr>Suffix := Suffix (spin a)\<rparr>" by simp
  with rest show ?thesis by (simp add: with_suffix_def)
qed

lemma loop_with_suffix:
  "map_option (on_state (with_suffix z)) (loop mode (with_suffix x s) events) =
   map_option (on_state (with_suffix z)) (loop mode s events)"
proof (induction events arbitrary: s x)
  case Nil
  then show ?case by simp
next
  case (Cons e events)
  obtain now evt where e: "e = (now, evt)" by (cases e)
  note h = handle_with_suffix [of z mode now x s evt]
  show ?case
  proof (cases "handle mode now s evt")
    case None
    with h have "handle mode now (with_suffix x s) evt = None" by simp
    with None e show ?thesis by simp
  next
    case (Some fl)
    with h obtain fl' where h': "handle mode now (with_suffix x s) evt = Some fl'"
      and eq: "on_state (with_suffix z) fl' = on_state (with_suffix z) fl"
      by (cases "handle mode now (with_suffix x s) evt") auto
    show ?thesis
    proof (cases fl)
      case (Continue a)
      with eq obtain a' where fl': "fl' = Continue a'" and "with_suffix z a' = with_suffix z a"
        by (cases fl') auto
      then have "a' = with_suffix (Suffix (spin a')) a" by (simp add: with_suffix_eqD)
      with Cons.IH [of "Suffix (spin a')" a]
      have "map_option (on_state (with_suffix z)) (loop mode a' events) =
            map_option (on_state (with_suffix z)) (loop mode a events)" by simp
      with Some h' Continue fl' e show ?thesis by simp
    next
      case (ReturnFalse a)
      with eq obtain a' where "fl' = ReturnFalse a'" and "with_suffix z a' = with_suffix z a"
        by (cases fl') auto
      with Some h' ReturnFalse e show ?thesis by simp
    qed
  qed
qed

lemma on_ResOutputs_mode:
  assumes "mode1 \<noteq> ProgressModeRefresh" and "mode2 \<noteq> ProgressModeRefresh"
  shows "on_ResOutputs mode1 now s evt = on_ResOutputs mode2 now s evt"
proof (cases "ResOutputsEvent evt")
  case None
  then show ?thesis by (simp add: on_ResOutputs_def)
next
  case (Some md)
  from assms have l: "spec_outputs_label mode1 (Op md) = spec_outputs_label mode2 (Op md)"
    by (simp add: spec_outputs_label_def)
  show ?thesis
  proof (cases "Type md = stack_type \<and> Op md \<noteq> OpDelete")
    case True
    with Some show ?thesis by (simp add: on_ResOutputs_root)
  next
    case False
    with Some l show ?thesis by (simp add: on_ResOutputs_table)
  qed
qed

lemma handle_mode:
  assumes "mode1 \<noteq> ProgressModeRefresh" and "mode2 \<noteq> ProgressModeRefresh"
  shows "handle mode1 now s evt = handle mode2 now s evt"
proof -
  have "on_ResourcePre mode1 now t evt = on_ResourcePre mode2 now t evt" for t
    by (simp add: on_ResourcePre_def on_ResOutputs_mode [OF assms] cong: option.case_cong if_cong)
  then show ?thesis by (simp add: handle_def cong: option.case_cong if_cong)
qed

lemma loop_mode:
  assumes "mode1 \<noteq> ProgressModeRefresh" and "mode2 \<noteq> ProgressModeRefresh"
  shows "loop mode1 s events = loop mode2 s events"
  by (induction events arbitrary: s)
     (auto simp: handle_mode [OF assms] split: option.splits flow.splits)

lemma start_with_suffix: "start mode1 = with_suffix (mode_suffix mode1) (start mode2)"
  by (simp add: start_def with_suffix_def spinner_New_def Start_def)

lemma progress_with_suffix:
  assumes "map_option (on_state (with_suffix z)) (loop mode1 (start mode1) events) =
           map_option (on_state (with_suffix z)) (loop mode2 (start mode2) events)"
  shows "map_option (\<lambda>(b, s). (b, with_suffix z s)) (progress mode1 events) =
         map_option (\<lambda>(b, s). (b, with_suffix z s)) (progress mode2 events)"
proof (cases "loop mode1 (start mode1) events")
  case None
  with assms have "loop mode2 (start mode2) events = None" by simp
  with None show ?thesis by (simp add: progress_def)
next
  case (Some fl1)
  with assms obtain fl2 where l2: "loop mode2 (start mode2) events = Some fl2"
    and eq: "on_state (with_suffix z) fl1 = on_state (with_suffix z) fl2"
    by (cases "loop mode2 (start mode2) events") auto
  have stop: "with_suffix z (t\<lparr>spin := f (spin t)\<rparr>)
                = with_suffix z ((with_suffix y t)\<lparr>spin := f (spin (with_suffix y t))\<rparr>)"
    if "\<And>sp x. f (sp\<lparr>Suffix := x\<rparr>) = (f sp)\<lparr>Suffix := x\<rparr>"
    for t :: "'a reducer" and y f
    using that by (simp add: with_suffix_def)
  show ?thesis
  proof (cases fl1)
    case (ReturnFalse a)
    with eq obtain b where fl2: "fl2 = ReturnFalse b" and "with_suffix z a = with_suffix z b"
      by (cases fl2) auto
    then have "a = with_suffix (Suffix (spin a)) b" by (simp add: with_suffix_eqD)
    then have "with_suffix z (a\<lparr>spin := Stop (spin a)\<rparr>) = with_suffix z (b\<lparr>spin := Stop (spin b)\<rparr>)"
      using stop [where f = Stop and t = b and y = "Suffix (spin a)"] by (simp add: Stop_Suffix)
    with Some l2 ReturnFalse fl2 show ?thesis by (simp add: progress_def)
  next
    case (Continue a)
    with eq obtain b where fl2: "fl2 = Continue b" and "with_suffix z a = with_suffix z b"
      by (cases fl2) auto
    then have ab: "a = with_suffix (Suffix (spin a)) b" by (simp add: with_suffix_eqD)
    then have e: "errors a = errors b" and o: "outputs a = outputs b"
      and t: "terminal a = terminal b"
      by (metis with_suffix_fields)+
    from ab have st: "with_suffix z (a\<lparr>spin := Stop (Stop (spin a))\<rparr>)
                    = with_suffix z (b\<lparr>spin := Stop (Stop (spin b))\<rparr>)"
      using stop [where f = "\<lambda>sp. Stop (Stop sp)" and t = b and y = "Suffix (spin a)"]
      by (simp add: Stop_Suffix)
    have up: "with_suffix z (u\<lparr>terminal := tm\<rparr>) = (with_suffix z u)\<lparr>terminal := tm\<rparr>"
      for u :: "'a reducer" and tm
      by (simp add: with_suffix_def)
    show ?thesis
    proof (cases "report_errors (errors b)")
      case None
      with Some l2 Continue fl2 e o t st show ?thesis
        by (simp add: progress_def Let_def up)
    next
      case (Some report)
      with \<open>loop mode1 (start mode1) events = Some fl1\<close> l2 Continue fl2 e o t st show ?thesis
        by (simp add: progress_def Let_def up)
    qed
  qed
qed

lemma int64_id: "- (2 ^ 63) \<le> x \<Longrightarrow> x < 2 ^ 63 \<Longrightarrow> int64 x = x"
  by (simp add: int64_def)

lemma Round_Millisecond:
  assumes "0 \<le> d" and "d \<le> maxDuration - Millisecond"
  shows "Round d Millisecond =
           (if 2 * (d mod 1000000) < 1000000 then d - d mod 1000000
            else d - d mod 1000000 + 1000000)"
proof -
  let ?r = "d mod 1000000"
  have r: "go_rem d Millisecond = ?r"
    using assms(1) by (cases "d = 0") (simp_all add: go_rem_def Millisecond_def)
  have rb: "0 \<le> ?r" "?r < 1000000" by simp_all
  have half: "lessThanHalf ?r Millisecond = (2 * ?r < 1000000)"
    using rb by (simp add: lessThanHalf_def Millisecond_def)
  from assms have d63: "d < 2 ^ 63 - 1000000"
    by (simp add: maxDuration_def Millisecond_def)
  have down: "int64 (d - ?r) = d - ?r"
    using assms(1) rb d63 by (intro int64_id) linarith+
  have "int64 (d + 1000000 - ?r) = d + 1000000 - ?r"
    using assms(1) rb d63 by (intro int64_id) linarith+
  then have up: "int64 (d + Millisecond - ?r) = d + 1000000 - ?r"
    by (simp add: Millisecond_def)
  have pos: "\<not> Millisecond \<le> 0" by (simp add: Millisecond_def)
  have neg: "\<not> d < 0" using assms(1) by simp
  have gt: "d + 1000000 - ?r > d" using rb by linarith
  show ?thesis
    unfolding Round_def Let_def r half down up
    using pos neg gt by (simp only: if_False if_True) simp
qed

lemma Round_Millisecond_nearest:
  assumes "0 \<le> d" and "d \<le> maxDuration - Millisecond"
  shows "Round d Millisecond mod 1000000 = 0 \<and> \<bar>Round d Millisecond - d\<bar> \<le> 500000"
proof -
  have m: "(d - d mod 1000000) mod 1000000 = 0" by (simp add: minus_mod_eq_mult_div)
  then have m': "(d - d mod 1000000 + 1000000) mod 1000000 = 0" by simp
  have rb: "0 \<le> d mod 1000000" "d mod 1000000 < 1000000" by simp_all
  show ?thesis
  proof (cases "2 * (d mod 1000000) < 1000000")
    case True
    with rb m show ?thesis by (simp add: Round_Millisecond [OF assms])
  next
    case False
    with rb m' show ?thesis by (simp add: Round_Millisecond [OF assms])
  qed
qed

lemma handle_ResourcePre:
  "handle mode now s (ResourcePre md) = on_ResourcePre mode now s (ResourcePre md)"
  by (simp add: handle_def ResourcePre_def no_event_def)

lemma ResourcePreEvent_ResourcePre: "ResourcePreEvent (ResourcePre md) = Some md"
  by (simp add: ResourcePre_def no_event_def)

lemma on_ResOutputs_ResourcePre: "on_ResOutputs mode now s (ResourcePre md) = Some (Continue s)"
  by (simp add: on_ResOutputs_def on_Diagnostic_def ResourcePre_def no_event_def)

text \<open>
  The duration when the time was recorded: a \<^verbatim>\<open>ResourcePre\<close> records the reading of the clock
  for its identifier, and the line of the outputs that follow carries the difference of
  the two readings, rounded to the millisecond (none when that is zero).
\<close>

lemma ResourcePre_records_time:
  assumes "handle mode now s (ResourcePre md) = Some (Continue s')"
  shows "timing s' (md_URN md) = Some now"
proof (cases "Type md = stack_type")
  case True
  with assms show ?thesis
    by (auto simp: handle_ResourcePre on_ResourcePre_root [OF ResourcePreEvent_ResourcePre])
next
  case False
  with assms show ?thesis
    by (cases "spec_pre_label (Op md)")
       (auto simp: handle_ResourcePre on_ResourcePre_table [OF ResourcePreEvent_ResourcePre]
          on_ResOutputs_ResourcePre printProgress_frame)
qed

lemma ResourceOutputs_duration:
  assumes "timing s (md_URN md) = Some t0" and "t0 \<le> now"
    and "now - t0 \<le> maxDuration - Millisecond"
    and "\<not> (Type md = stack_type \<and> Op md \<noteq> OpDelete)"
    and "spec_outputs_label mode (Op md) = Some l"
    and "md_URN md @ l \<notin> dedupe s"
    and "formatURN (md_URN md) = Some shown"
  shows "\<exists>s'. handle mode now s (ResourceOutputs md) = Some (Continue s')
           \<and> terminal s' = terminal s @
                [StatusLine (spec_outputs_color (Op md)) (pad11 l) shown
                   (if Round (now - t0) Millisecond = 0 then None
                    else Some (Round (now - t0) Millisecond))
                   None]
           \<and> Round (now - t0) Millisecond mod 1000000 = 0
           \<and> \<bar>Round (now - t0) Millisecond - (now - t0)\<bar> \<le> 500000"
proof -
  from assms(2,3) have d: "Since now (timing_of s (md_URN md)) = now - t0"
    using assms(1)
    by (simp add: Since_def Sub_def timing_of_def maxDuration_def minDuration_def
          Millisecond_def)
  let ?line = "final_line (spec_outputs_color (Op md)) l (md_URN md)
                 (Round (now - t0) Millisecond)"
  from assms(6) have "URN ?line @ Label ?line \<notin> dedupe s" by (simp add: final_line_def)
  from printProgress_fresh [OF this] assms(7)
  have p: "printProgress s ?line =
             Some (s\<lparr>spin := Enable (Disable (spin s)),
                     dedupe := insert (md_URN md @ l) (dedupe s),
                     terminal := terminal s @
                       [StatusLine (spec_outputs_color (Op md)) (pad11 l) shown
                          (if Round (now - t0) Millisecond = 0 then None
                           else Some (Round (now - t0) Millisecond))
                          None]\<rparr>)"
    by (simp add: final_line_def)
  from assms(2,3) have "0 \<le> now - t0" by simp
  from Round_Millisecond_nearest [OF this assms(3)] p assms(4,5) d show ?thesis
    by (cases "Op md = OpSame")
       (simp_all add: handle_ResourceOutputs
          on_ResOutputs_table [OF ResOutputsEvent_ResourceOutputs]
          on_Diagnostic_ResourceOutputs Let_def)
qed

text \<open>\<^verbatim>\<open>errors\<close> only grows: every iteration keeps what is there and appends at the end.\<close>

lemma on_Diagnostic_errors:
  assumes "on_Diagnostic s evt = Some fl"
  shows "prefix (errors s) (errors (flow_state fl))"
proof (cases "DiagnosticEvent evt")
  case None
  with assms show ?thesis by (auto simp: on_Diagnostic_def)
next
  case (Some d)
  with assms show ?thesis
    by (auto simp: on_Diagnostic_def Let_def printProgress_frame split: if_splits)
qed

lemma on_ResOutputs_errors:
  assumes "on_ResOutputs mode now s evt = Some fl"
  shows "prefix (errors s) (errors (flow_state fl))"
proof (cases "ResOutputsEvent evt")
  case None
  with assms show ?thesis by (simp add: on_ResOutputs_def on_Diagnostic_errors)
next
  case (Some md)
  show ?thesis
  proof (cases "Type md = stack_type \<and> Op md \<noteq> OpDelete")
    case True
    with assms Some show ?thesis
      by (auto simp: on_ResOutputs_root split: option.splits)
  next
    case False
    show ?thesis
    proof (cases "spec_outputs_label mode (Op md)")
      case None
      with assms Some False show ?thesis
        by (simp add: on_ResOutputs_table on_Diagnostic_errors)
    next
      case l: (Some l)
      with assms Some False show ?thesis
        by (cases "Op md = OpSame")
           (auto simp: on_ResOutputs_table Let_def printProgress_frame
                 dest!: on_Diagnostic_errors split: Option.bind_splits)
    qed
  qed
qed

lemma on_ResourcePre_errors:
  assumes "on_ResourcePre mode now s evt = Some fl"
  shows "prefix (errors s) (errors (flow_state fl))"
proof (cases "ResourcePreEvent evt")
  case None
  with assms show ?thesis by (simp add: on_ResourcePre_def on_ResOutputs_errors)
next
  case (Some md)
  show ?thesis
  proof (cases "Type md = stack_type")
    case True
    with assms Some show ?thesis by (auto simp: on_ResourcePre_root)
  next
    case False
    show ?thesis
    proof (cases "spec_pre_label (Op md)")
      case None
      with assms Some False show ?thesis
        by (auto simp: on_ResourcePre_table dest!: on_ResOutputs_errors)
    next
      case l: (Some l)
      with assms Some False show ?thesis
        by (auto simp: on_ResourcePre_table printProgress_frame)
    qed
  qed
qed

lemma handle_errors:
  assumes "handle mode now s evt = Some fl"
  shows "prefix (errors s) (errors (flow_state fl))"
proof (cases "ConcurrentUpdateEvent evt \<noteq> None \<or> StdOutEvent evt \<noteq> None")
  case True
  with assms show ?thesis
    by (auto simp: handle_def Let_def split: if_splits option.splits)
next
  case False
  with assms have "on_ResourcePre mode now
      (if SummaryEvent evt \<noteq> None then s\<lparr>spin := (spin s)\<lparr>Suffix := ''  Finalizing...''\<rparr>\<rparr> else s)
      evt = Some fl"
    by (auto simp: handle_def Let_def)
  from on_ResourcePre_errors [OF this] show ?thesis
    by (simp split: if_splits)
qed

lemma loop_errors:
  assumes "loop mode s events = Some fl"
  shows "prefix (errors s) (errors (flow_state fl))"
  using assms
proof (induction events arbitrary: s)
  case Nil
  then show ?case by auto
next
  case (Cons x events)
  obtain now evt where x: "x = (now, evt)" by (cases x)
  from Cons.prems x obtain fl1 where h: "handle mode now s evt = Some fl1"
    by (auto split: option.splits)
  show ?case
  proof (cases fl1)
    case (Continue s1)
    with h Cons.prems x have "loop mode s1 events = Some fl" by simp
    from Cons.IH [OF this] handle_errors [OF h] Continue show ?thesis
      by (auto intro: prefix_order.trans)
  next
    case (ReturnFalse s1)
    with h Cons.prems x have "fl = ReturnFalse s1" by simp
    with handle_errors [OF h] ReturnFalse show ?thesis by simp
  qed
qed

section \<open>The claims\<close>

text \<open>
  C1. On a well-formed stream \<^verbatim>\<open>progress\<close> returns, and it returns \<^verbatim>\<open>true\<close> exactly when the
  errors of the state it leaves are empty (nothing was appended: the list is empty at the
  start and only grows, \<open>loop_errors\<close>) and no event was a concurrent update, which returns
  \<^verbatim>\<open>false\<close> at once. An error without identifier makes the value \<^verbatim>\<open>false\<close> like any other.
\<close>

theorem verdict_correct:
  assumes "wellformed_stream events"
  shows "\<exists>s. progress mode events =
               Some (errors s = [] \<and> \<not> has_ConcurrentUpdate events, s)"
proof -
  from loop_wellformed [OF assms errors_ok_start, of mode] obtain s' where
    ok: "errors_ok s'" and
    l: "loop mode (start mode) events =
          Some (if has_ConcurrentUpdate events then ReturnFalse s' else Continue s')"
    by blast
  show ?thesis
  proof (cases "has_ConcurrentUpdate events")
    case True
    with l show ?thesis by (simp add: progress_def)
  next
    case False
    show ?thesis
    proof (cases "errors s' = []")
      case True
      with False l show ?thesis by (simp add: progress_def Let_def)
    next
      case ne: False
      from ok obtain report where "report_errors (errors s') = Some report"
        using report_errors_defined [of "errors s'"] by (auto simp: errors_ok_def)
      with ne False l show ?thesis by (simp add: progress_def Let_def)
    qed
  qed
qed

theorem verdict_correct_witness:
  "wellformed_stream
     [(0, Diagnostic \<lparr>diag_URN = [], diag_Message = ''Error: boom\<newline>    at main.ts:3'',
                      Severity = ''error''\<rparr> :: unit stack_event)]
   \<and> (\<exists>s. progress ProgressModeDeploy
              [(0, Diagnostic \<lparr>diag_URN = [],
                               diag_Message = ''Error: boom\<newline>    at main.ts:3'',
                               Severity = ''error''\<rparr> :: unit stack_event)]
            = Some (False, s)
          \<and> errors s = [\<lparr>Error = ''Error: boom\<newline>   at main.ts:3'', err_URN = []\<rparr>])"
proof -
  let ?events = "[(0, Diagnostic \<lparr>diag_URN = [],
                    diag_Message = ''Error: boom\<newline>    at main.ts:3'',
                    Severity = ''error''\<rparr> :: unit stack_event)]"
  have wf: "wellformed_stream ?events" by code_simp
  have run: "map_option (\<lambda>(b, s). (b, errors s)) (progress ProgressModeDeploy ?events)
               = Some (False, [\<lparr>Error = ''Error: boom\<newline>   at main.ts:3'', err_URN = []\<rparr>])"
    by code_simp
  from verdict_correct [OF wf, of ProgressModeDeploy] obtain s where
    "progress ProgressModeDeploy ?events =
       Some (errors s = [] \<and> \<not> has_ConcurrentUpdate ?events, s)"
    by blast
  with run have "progress ProgressModeDeploy ?events = Some (False, s)
      \<and> errors s = [\<lparr>Error = ''Error: boom\<newline>   at main.ts:3'', err_URN = []\<rparr>]"
    by auto
  with wf show ?thesis by blast
qed

text \<open>
  C2. Whatever comes after an event with \<^verbatim>\<open>ConcurrentUpdateEvent\<close> changes nothing: the value,
  the state and the terminal are those of the stream cut after that event. On well-formed
  events before it, whatever errors and outputs they leave, \<^verbatim>\<open>progress\<close> returns \<^verbatim>\<open>false\<close>.
\<close>

theorem concurrent_update_short_circuit:
  assumes "ConcurrentUpdateEvent evt \<noteq> None"
  shows "progress mode (before @ (now, evt) # after) = progress mode (before @ [(now, evt)])
         \<and> (wellformed_stream before \<longrightarrow>
              (\<exists>s. progress mode (before @ (now, evt) # after) = Some (False, s)))"
proof
  show "progress mode (before @ (now, evt) # after) = progress mode (before @ [(now, evt)])"
    by (simp add: progress_def
          loop_stops_at_ConcurrentUpdate [OF assms, of mode "start mode" before now after])
next
  show "wellformed_stream before \<longrightarrow>
          (\<exists>s. progress mode (before @ (now, evt) # after) = Some (False, s))"
  proof
    assume wf: "wellformed_stream before"
    from loop_wellformed [OF wf errors_ok_start, of mode] obtain s' where
      l: "loop mode (start mode) before =
            Some (if has_ConcurrentUpdate before then ReturnFalse s' else Continue s')"
      by blast
    from handle_ConcurrentUpdate [OF assms, of mode now s'] obtain s'' where
      h: "handle mode now s' evt = Some (ReturnFalse s'')" by blast
    from l h show "\<exists>s. progress mode (before @ (now, evt) # after) = Some (False, s)"
      by (cases "has_ConcurrentUpdate before") (simp_all add: progress_def loop_append)
  qed
qed

theorem concurrent_update_short_circuit_witness:
  "ConcurrentUpdateEvent (ConcurrentUpdate :: unit stack_event) \<noteq> None
   \<and> wellformed_stream
        [(1, ResourcePre \<lparr>Op = OpCreate, md_URN = ''urn:pulumi:dev::app::aws:s3/bucket:Bucket::Assets'',
                          Type = ''aws:s3/bucket:Bucket'', New = None\<rparr> :: unit stack_event)]
   \<and> progress ProgressModeDeploy
        ([(1, ResourcePre \<lparr>Op = OpCreate, md_URN = ''urn:pulumi:dev::app::aws:s3/bucket:Bucket::Assets'',
                           Type = ''aws:s3/bucket:Bucket'', New = None\<rparr>)]
         @ (2, ConcurrentUpdate :: unit stack_event)
         # [(3, Diagnostic \<lparr>diag_URN = [], diag_Message = ''Error: boom\<newline>    at main.ts:3'',
                             Severity = ''error''\<rparr>)])
     = progress ProgressModeDeploy
        ([(1, ResourcePre \<lparr>Op = OpCreate, md_URN = ''urn:pulumi:dev::app::aws:s3/bucket:Bucket::Assets'',
                           Type = ''aws:s3/bucket:Bucket'', New = None\<rparr>)]
         @ [(2, ConcurrentUpdate)])
   \<and> (\<exists>s. progress ProgressModeDeploy
        ([(1, ResourcePre \<lparr>Op = OpCreate, md_URN = ''urn:pulumi:dev::app::aws:s3/bucket:Bucket::Assets'',
                           Type = ''aws:s3/bucket:Bucket'', New = None\<rparr>)]
         @ (2, ConcurrentUpdate :: unit stack_event)
         # [(3, Diagnostic \<lparr>diag_URN = [], diag_Message = ''Error: boom\<newline>    at main.ts:3'',
                             Severity = ''error''\<rparr>)]) = Some (False, s))"
proof -
  have cu: "ConcurrentUpdateEvent (ConcurrentUpdate :: unit stack_event) \<noteq> None"
    by (simp add: ConcurrentUpdate_def no_event_def)
  have wf: "wellformed_stream
        [(1, ResourcePre \<lparr>Op = OpCreate, md_URN = ''urn:pulumi:dev::app::aws:s3/bucket:Bucket::Assets'',
                          Type = ''aws:s3/bucket:Bucket'', New = None\<rparr> :: unit stack_event)]"
    by code_simp
  from concurrent_update_short_circuit [OF cu] wf cu show ?thesis by blast
qed

text \<open>
  C3, as stated, fails: an identifier of three segments makes \<^verbatim>\<open>formatURN\<close> panic
  (\<^verbatim>\<open>splits[1]\<close> is out of range).
\<close>

theorem formatURN_short_identifier_panics:
  "formatURN ''urn:pulumi:dev::app::aws:s3/bucket:Bucket'' = None"
  by code_simp

text \<open>
  C3, amended. \<^verbatim>\<open>formatURN\<close> returns a display string exactly for the identifiers with four
  segments at least between double colons; on the others it panics.
\<close>

theorem formatURN_returns_iff_four_segments:
  "(\<exists>shown. formatURN urn = Some shown) = (4 \<le> length (Split urn ''::''))"
  using formatURN_defined [of urn] by (auto simp: urn_ok_def)

theorem formatURN_returns_iff_four_segments_witness:
  "4 \<le> length (Split ''urn:pulumi:dev::app::aws:s3/bucket:Bucket::Assets'' ''::'')
   \<and> (\<exists>shown. formatURN ''urn:pulumi:dev::app::aws:s3/bucket:Bucket::Assets'' = Some shown)"
proof -
  have four: "4 \<le> length (Split ''urn:pulumi:dev::app::aws:s3/bucket:Bucket::Assets'' ''::'')"
    by code_simp
  with formatURN_returns_iff_four_segments
         [of "''urn:pulumi:dev::app::aws:s3/bucket:Bucket::Assets''"]
  show ?thesis by blast
qed

text \<open>
  C4: the code at the failing input. The outputs of a resource arrive (on 3 November 2026)
  with no \<^verbatim>\<open>ResourcePre\<close> before: \<^verbatim>\<open>timing[urn]\<close> is the zero \<^verbatim>\<open>Time\<close>, \<^verbatim>\<open>time.Since\<close> saturates, and
  the line \<^verbatim>\<open>Created\<close> is written with a duration of 9223372036854775807 nanoseconds, about
  292 years, not with none.
\<close>

theorem outputs_without_pre_duration:
  "map_option (\<lambda>fl. map (\<lambda>line. case line of StatusLine c l u d m \<Rightarrow> (l, d) | _ \<Rightarrow> ([], None))
                          (terminal (flow_state fl)))
     (handle ProgressModeDeploy 63929260800000000000 (start ProgressModeDeploy :: unit reducer)
        (ResourceOutputs
           \<lparr>Op = OpCreate, md_URN = ''urn:pulumi:dev::app::aws:s3/bucket:Bucket::Assets'',
            Type = ''aws:s3/bucket:Bucket'', New = None\<rparr>))
   = Some [(''Created    '', Some 9223372036854775807)]"
  by code_simp

text \<open>
  C5, as stated, fails. A diagnostic delivered twice: the second delivery finds its key
  recorded and writes no line, yet \<^verbatim>\<open>errors\<close> has two entries after it. A \<^verbatim>\<open>ResourcePre\<close>
  delivered twice: the second delivery writes no line, yet the time recorded for the
  identifier is the one of the second delivery.
\<close>

theorem redelivery_changes_errors_and_timing:
  "map_option (\<lambda>fl. (length (terminal (flow_state fl)), length (errors (flow_state fl)),
                      ''urn:pulumi:dev::app::aws:lambda/function:Function::ApiError''
                        \<in> dedupe (flow_state fl)))
     (loop ProgressModeDeploy (start ProgressModeDeploy) [(1, api_failed)])
     = Some (1, 1, True)
   \<and> map_option (\<lambda>fl. (length (terminal (flow_state fl)), length (errors (flow_state fl))))
       (loop ProgressModeDeploy (start ProgressModeDeploy) [(1, api_failed), (2, api_failed)])
     = Some (1, 2)
   \<and> map_option (\<lambda>fl. (length (terminal (flow_state fl)),
                        timing (flow_state fl)
                          ''urn:pulumi:dev::app::aws:lambda/function:Function::Api'',
                        ''urn:pulumi:dev::app::aws:lambda/function:Function::ApiUpdating''
                          \<in> dedupe (flow_state fl)))
       (loop ProgressModeDeploy (start ProgressModeDeploy) [(1, api_updating)])
     = Some (1, Some 1, True)
   \<and> map_option (\<lambda>fl. (length (terminal (flow_state fl)),
                        timing (flow_state fl)
                          ''urn:pulumi:dev::app::aws:lambda/function:Function::Api''))
       (loop ProgressModeDeploy (start ProgressModeDeploy) [(1, api_updating), (2, api_updating)])
     = Some (1, Some 2)"
  by code_simp

text \<open>
  C5, amended. An event whose key is recorded writes no line and changes neither the keys,
  nor \<^verbatim>\<open>pending\<close>, nor \<^verbatim>\<open>outputs\<close>. The key does not guard \<^verbatim>\<open>errors\<close> and \<^verbatim>\<open>timing\<close>: a \<^verbatim>\<open>ResourcePre\<close>
  records the new reading of the clock for its identifier, and a diagnostic of severity
  \<^verbatim>\<open>error\<close> with an identifier is appended to \<^verbatim>\<open>errors\<close> once more; the outputs of a resource
  change neither.
\<close>

theorem redelivery_writes_no_line:
  "(Type md \<noteq> stack_type \<and> spec_pre_label (Op md) = Some l \<and> md_URN md @ l \<in> dedupe s
      \<longrightarrow> (\<exists>s'. handle mode now s (ResourcePre md) = Some (Continue s')
             \<and> terminal s' = terminal s \<and> dedupe s' = dedupe s \<and> pending s' = pending s
             \<and> outputs s' = outputs s \<and> errors s' = errors s
             \<and> timing s' = (timing s)(md_URN md \<mapsto> now)))
   \<and> (\<not> (Type md = stack_type \<and> Op md \<noteq> OpDelete)
        \<and> spec_outputs_label mode (Op md) = Some l \<and> md_URN md @ l \<in> dedupe s
      \<longrightarrow> (\<exists>s'. handle mode now s (ResourceOutputs md) = Some (Continue s')
             \<and> terminal s' = terminal s \<and> dedupe s' = dedupe s \<and> pending s' = pending s
             \<and> outputs s' = outputs s \<and> errors s' = errors s \<and> timing s' = timing s))
   \<and> (Severity d = ''error'' \<and> diag_URN d \<noteq> [] \<and> diag_URN d @ ''Error'' \<in> dedupe s
      \<longrightarrow> (\<exists>s'. handle mode now s (Diagnostic d) = Some (Continue s')
             \<and> terminal s' = terminal s \<and> dedupe s' = dedupe s \<and> pending s' = pending s
             \<and> outputs s' = outputs s \<and> timing s' = timing s
             \<and> errors s' = errors s @
                  [\<lparr>Error = short_message (diag_Message d), err_URN = diag_URN d\<rparr>]))"
proof (intro conjI impI)
  assume a: "Type md \<noteq> stack_type \<and> spec_pre_label (Op md) = Some l \<and> md_URN md @ l \<in> dedupe s"
  let ?s1 = "s\<lparr>timing := (timing s)(md_URN md \<mapsto> now)\<rparr>"
  let ?line = "(pre_line (spec_pre_color (Op md)) l (md_URN md))\<lparr>Final := (Op md = OpSame)\<rparr>"
  from a have "URN ?line @ Label ?line \<in> dedupe ?s1" by (simp add: pre_line_def)
  from printProgress_seen [OF this] a
  show "\<exists>s'. handle mode now s (ResourcePre md) = Some (Continue s')
             \<and> terminal s' = terminal s \<and> dedupe s' = dedupe s \<and> pending s' = pending s
             \<and> outputs s' = outputs s \<and> errors s' = errors s
             \<and> timing s' = (timing s)(md_URN md \<mapsto> now)"
    by (simp add: handle_ResourcePre on_ResourcePre_table [OF ResourcePreEvent_ResourcePre])
next
  assume a: "\<not> (Type md = stack_type \<and> Op md \<noteq> OpDelete)
        \<and> spec_outputs_label mode (Op md) = Some l \<and> md_URN md @ l \<in> dedupe s"
  let ?line = "final_line (spec_outputs_color (Op md)) l (md_URN md)
                 (Round (Since now (timing_of s (md_URN md))) Millisecond)"
  from a have "URN ?line @ Label ?line \<in> dedupe s" by (simp add: final_line_def)
  from printProgress_seen [OF this] a
  show "\<exists>s'. handle mode now s (ResourceOutputs md) = Some (Continue s')
             \<and> terminal s' = terminal s \<and> dedupe s' = dedupe s \<and> pending s' = pending s
             \<and> outputs s' = outputs s \<and> errors s' = errors s \<and> timing s' = timing s"
    by (cases "Op md = OpSame")
       (simp_all add: handle_ResourceOutputs
          on_ResOutputs_table [OF ResOutputsEvent_ResourceOutputs]
          on_Diagnostic_ResourceOutputs Let_def)
next
  assume a: "Severity d = ''error'' \<and> diag_URN d \<noteq> [] \<and> diag_URN d @ ''Error'' \<in> dedupe s"
  let ?s1 = "s\<lparr>errors := errors s @
                 [\<lparr>Error = short_message (diag_Message d), err_URN = diag_URN d\<rparr>]\<rparr>"
  let ?p = "\<lparr>Color = FgRed, Label = ''Error'', URN = diag_URN d, Final = True,
             Message = short_message (diag_Message d), Duration = 0\<rparr>"
  from a have "URN ?p @ Label ?p \<in> dedupe ?s1" by simp
  from printProgress_seen [OF this] a
  show "\<exists>s'. handle mode now s (Diagnostic d) = Some (Continue s')
             \<and> terminal s' = terminal s \<and> dedupe s' = dedupe s \<and> pending s' = pending s
             \<and> outputs s' = outputs s \<and> timing s' = timing s
             \<and> errors s' = errors s @
                  [\<lparr>Error = short_message (diag_Message d), err_URN = diag_URN d\<rparr>]"
    by (simp add: handle_Diagnostic on_Diagnostic_def DiagnosticEvent_Diagnostic Let_def)
qed

theorem redelivery_writes_no_line_witness:
  "Severity \<lparr>diag_URN = ''urn:pulumi:dev::app::aws:lambda/function:Function::Api'',
             diag_Message = ''line1\<newline>ERROR: boom\<newline>line3'', Severity = ''error''\<rparr> = ''error''
   \<and> ''urn:pulumi:dev::app::aws:lambda/function:Function::Api'' @ ''Error''
       \<in> dedupe ((start ProgressModeDeploy :: unit reducer)
            \<lparr>dedupe := {''urn:pulumi:dev::app::aws:lambda/function:Function::ApiError'',
                         ''urn:pulumi:dev::app::aws:lambda/function:Function::ApiUpdating'',
                               ''urn:pulumi:dev::app::aws:lambda/function:Function::ApiCreated''}\<rparr>)
   \<and> (\<exists>s'. handle ProgressModeDeploy 2
               ((start ProgressModeDeploy :: unit reducer)
                  \<lparr>dedupe := {''urn:pulumi:dev::app::aws:lambda/function:Function::ApiError'',
                               ''urn:pulumi:dev::app::aws:lambda/function:Function::ApiUpdating'',
                               ''urn:pulumi:dev::app::aws:lambda/function:Function::ApiCreated''}\<rparr>)
               (Diagnostic
                  \<lparr>diag_URN = ''urn:pulumi:dev::app::aws:lambda/function:Function::Api'',
                   diag_Message = ''line1\<newline>ERROR: boom\<newline>line3'', Severity = ''error''\<rparr>)
             = Some (Continue s')
          \<and> terminal s' = []
          \<and> errors s' = [\<lparr>Error = ''boom'',
                           err_URN = ''urn:pulumi:dev::app::aws:lambda/function:Function::Api''\<rparr>])
   \<and> spec_pre_label OpUpdate = Some ''Updating''
   \<and> (\<exists>s'. handle ProgressModeDeploy 2
               ((start ProgressModeDeploy :: unit reducer)
                  \<lparr>dedupe := {''urn:pulumi:dev::app::aws:lambda/function:Function::ApiError'',
                               ''urn:pulumi:dev::app::aws:lambda/function:Function::ApiUpdating'',
                               ''urn:pulumi:dev::app::aws:lambda/function:Function::ApiCreated''}\<rparr>)
               (ResourcePre
                  \<lparr>Op = OpUpdate,
                   md_URN = ''urn:pulumi:dev::app::aws:lambda/function:Function::Api'',
                   Type = ''aws:lambda/function:Function'', New = None\<rparr>)
             = Some (Continue s')
          \<and> terminal s' = [] \<and> errors s' = []
          \<and> timing s' ''urn:pulumi:dev::app::aws:lambda/function:Function::Api'' = Some 2)
   \<and> spec_outputs_label ProgressModeDeploy OpCreate = Some ''Created''
   \<and> (\<exists>s'. handle ProgressModeDeploy 2
               ((start ProgressModeDeploy :: unit reducer)
                  \<lparr>dedupe := {''urn:pulumi:dev::app::aws:lambda/function:Function::ApiError'',
                               ''urn:pulumi:dev::app::aws:lambda/function:Function::ApiUpdating'',
                               ''urn:pulumi:dev::app::aws:lambda/function:Function::ApiCreated''}\<rparr>)
               (ResourceOutputs
                  \<lparr>Op = OpCreate,
                   md_URN = ''urn:pulumi:dev::app::aws:lambda/function:Function::Api'',
                   Type = ''aws:lambda/function:Function'', New = None\<rparr>)
             = Some (Continue s')
          \<and> terminal s' = [] \<and> errors s' = []
          \<and> timing s' ''urn:pulumi:dev::app::aws:lambda/function:Function::Api'' = None)"
proof -
  let ?urn = "''urn:pulumi:dev::app::aws:lambda/function:Function::Api''"
  let ?s = "(start ProgressModeDeploy :: unit reducer)
              \<lparr>dedupe := {''urn:pulumi:dev::app::aws:lambda/function:Function::ApiError'',
                           ''urn:pulumi:dev::app::aws:lambda/function:Function::ApiUpdating'',
                               ''urn:pulumi:dev::app::aws:lambda/function:Function::ApiCreated''}\<rparr>"
  let ?d = "\<lparr>diag_URN = ?urn, diag_Message = ''line1\<newline>ERROR: boom\<newline>line3'',
             Severity = ''error''\<rparr>"
  let ?md = "\<lparr>Op = OpUpdate, md_URN = ?urn, Type = ''aws:lambda/function:Function'',
              New = None :: unit step_state option\<rparr>"
  have sev: "Severity ?d = ''error''" and urn: "diag_URN ?d \<noteq> []" by simp_all
  have key: "diag_URN ?d @ ''Error'' \<in> dedupe ?s" by simp
  have key': "md_URN ?md @ ''Updating'' \<in> dedupe ?s" by simp
  have ty: "Type ?md \<noteq> stack_type" by (simp add: stack_type_def)
  have lab: "spec_pre_label (Op ?md) = Some ''Updating''" by (simp add: spec_pre_label_def)
  let ?mo = "\<lparr>Op = OpCreate, md_URN = ?urn, Type = ''aws:lambda/function:Function'',
              New = None :: unit step_state option\<rparr>"
  have keyo: "md_URN ?mo @ ''Created'' \<in> dedupe ?s" by simp
  have tyo: "\<not> (Type ?mo = stack_type \<and> Op ?mo \<noteq> OpDelete)" by (simp add: stack_type_def)
  have labo: "spec_outputs_label ProgressModeDeploy (Op ?mo) = Some ''Created''"
    by (simp add: spec_outputs_label_def)
  from redelivery_writes_no_line [of ?mo "''Created''" ?s ProgressModeDeploy 2 ?d] keyo tyo labo
  have "(\<exists>s'. handle ProgressModeDeploy 2 ?s (ResourceOutputs ?mo) = Some (Continue s')
             \<and> terminal s' = terminal ?s \<and> errors s' = errors ?s \<and> timing s' = timing ?s)"
    by blast
  then have outs: "(\<exists>s'. handle ProgressModeDeploy 2 ?s (ResourceOutputs ?mo) = Some (Continue s')
             \<and> terminal s' = [] \<and> errors s' = [] \<and> timing s' ?urn = None)"
    by (auto simp: start_def)
  have msg: "short_message ''line1\<newline>ERROR: boom\<newline>line3'' = ''boom''" by code_simp
  from redelivery_writes_no_line [of ?md "''Updating''" ?s ProgressModeDeploy 2 ?d]
    sev urn key key' ty lab
  have "(\<exists>s'. handle ProgressModeDeploy 2 ?s (ResourcePre ?md) = Some (Continue s')
             \<and> terminal s' = terminal ?s \<and> errors s' = errors ?s
             \<and> timing s' = (timing ?s)(md_URN ?md \<mapsto> 2))"
    and "(\<exists>s'. handle ProgressModeDeploy 2 ?s (Diagnostic ?d) = Some (Continue s')
             \<and> terminal s' = terminal ?s
             \<and> errors s' = errors ?s @
                  [\<lparr>Error = short_message (diag_Message ?d), err_URN = diag_URN ?d\<rparr>])"
    by blast+
  then have "(\<exists>s'. handle ProgressModeDeploy 2 ?s (ResourcePre ?md) = Some (Continue s')
             \<and> terminal s' = [] \<and> errors s' = [] \<and> timing s' ?urn = Some 2)"
    and "(\<exists>s'. handle ProgressModeDeploy 2 ?s (Diagnostic ?d) = Some (Continue s')
             \<and> terminal s' = [] \<and> errors s' = [\<lparr>Error = ''boom'', err_URN = ?urn\<rparr>])"
    by (auto simp: start_def msg)
  with sev key lab labo outs show ?thesis by simp
qed

text \<open>
  C6: the code at the failing input. The first call for a line writes it and leaves the
  spinner enabled and running; the second call for the same identifier and label finds the
  key, returns before \<^verbatim>\<open>spin.Enable()\<close> is deferred, and leaves the spinner disabled and
  stopped.
\<close>

theorem printProgress_duplicate_disables_spinner:
  "map_option (\<lambda>s. (enabled (spin s), active (spin s), length (terminal s)))
     (printProgress (start ProgressModeDeploy :: unit reducer)
        (final_line FgGreen ''Created''
           ''urn:pulumi:dev::app::aws:s3/bucket:Bucket::Assets'' 0))
     = Some (True, True, 1)
   \<and> map_option (\<lambda>s. (enabled (spin s), active (spin s), length (terminal s)))
       (Option.bind
          (printProgress (start ProgressModeDeploy :: unit reducer)
             (final_line FgGreen ''Created''
                ''urn:pulumi:dev::app::aws:s3/bucket:Bucket::Assets'' 0))
          (\<lambda>s1. printProgress s1
             (final_line FgGreen ''Created''
                ''urn:pulumi:dev::app::aws:s3/bucket:Bucket::Assets'' 0)))
     = Some (False, False, 1)"
  by code_simp

text \<open>
  C7. The outputs of the stack, for an operation other than \<^verbatim>\<open>delete\<close>: the iteration ends
  with the state it started with but for \<^verbatim>\<open>outputs\<close>, which is the attribute map of the event;
  the terminal is the same, so no line is written. Over a run, the last such event wins:
  when no later event brings outputs of the stack, \<^verbatim>\<open>outputs\<close> is its attribute map at the
  end, whatever the events before it did.
\<close>

theorem root_outputs_replace:
  assumes "Type md = stack_type" and "Op md \<noteq> OpDelete" and "New md = Some new"
  shows "handle mode now s (ResourceOutputs md) = Some (Continue (s\<lparr>outputs := Outputs new\<rparr>))
         \<and> (wellformed_stream before \<and> \<not> has_ConcurrentUpdate before
              \<and> wellformed_stream after
              \<and> list_all (\<lambda>(now, evt). \<not> is_root_outputs evt) after
            \<longrightarrow> (\<exists>b s'. progress mode (before @ (now, ResourceOutputs md) # after) = Some (b, s')
                        \<and> outputs s' = Outputs new))"
proof
  show one: "handle mode now s (ResourceOutputs md) = Some (Continue (s\<lparr>outputs := Outputs new\<rparr>))"
    for s
    using assms
    by (simp add: handle_ResourceOutputs
          on_ResOutputs_root [OF ResOutputsEvent_ResourceOutputs])
  show "wellformed_stream before \<and> \<not> has_ConcurrentUpdate before
          \<and> wellformed_stream after
          \<and> list_all (\<lambda>(now, evt). \<not> is_root_outputs evt) after
        \<longrightarrow> (\<exists>b s'. progress mode (before @ (now, ResourceOutputs md) # after) = Some (b, s')
                    \<and> outputs s' = Outputs new)"
  proof
    assume a: "wellformed_stream before \<and> \<not> has_ConcurrentUpdate before
          \<and> wellformed_stream after
          \<and> list_all (\<lambda>(now, evt). \<not> is_root_outputs evt) after"
    let ?events = "before @ (now, ResourceOutputs md) # after"
    from assms have "wellformed (ResourceOutputs md)"
      by (simp add: wellformed_def ResourceOutputs_def no_event_def)
    with a have "wellformed_stream ?events"
      by (simp add: wellformed_stream_append wellformed_stream_Cons)
    from progress_returns [OF this, of mode] obtain b s' where
      p: "progress mode ?events = Some (b, s')" by blast
    from progress_outputs [OF p] obtain fl where
      l: "loop mode (start mode) ?events = Some fl" and o: "outputs s' = outputs (flow_state fl)"
      by blast
    from a loop_wellformed [OF _ errors_ok_start, of before mode] obtain s1 where
      l1: "loop mode (start mode) before = Some (Continue s1)" by auto
    from l l1 one [of s1] have "loop mode (s1\<lparr>outputs := Outputs new\<rparr>) after = Some fl"
      by (simp add: loop_append)
    from loop_outputs [OF _ this] a have "outputs (flow_state fl) = Outputs new" by simp
    with p o show "\<exists>b s'. progress mode ?events = Some (b, s') \<and> outputs s' = Outputs new"
      by simp
  qed
qed

theorem root_outputs_replace_witness:
  "Type \<lparr>Op = OpUpdate, md_URN = ''urn:pulumi:dev::app::pulumi:pulumi:Stack::app-dev'',
         Type = ''pulumi:pulumi:Stack'',
         New = Some \<lparr>Outputs = [''url'' \<mapsto> ''https://second.example'']\<rparr>\<rparr> = stack_type
   \<and> Op \<lparr>Op = OpUpdate, md_URN = ''urn:pulumi:dev::app::pulumi:pulumi:Stack::app-dev'',
          Type = ''pulumi:pulumi:Stack'',
          New = Some \<lparr>Outputs = [''url'' \<mapsto> ''https://second.example'']\<rparr>\<rparr> \<noteq> OpDelete
   \<and> handle ProgressModeDeploy 2 (start ProgressModeDeploy)
         (ResourceOutputs
            \<lparr>Op = OpUpdate, md_URN = ''urn:pulumi:dev::app::pulumi:pulumi:Stack::app-dev'',
             Type = ''pulumi:pulumi:Stack'',
             New = Some \<lparr>Outputs = [''url'' \<mapsto> ''https://second.example'']\<rparr>\<rparr>)
       = Some (Continue ((start ProgressModeDeploy)
                  \<lparr>outputs := [''url'' \<mapsto> ''https://second.example'']\<rparr>))
   \<and> wellformed_stream
         [(1, ResourceOutputs
                \<lparr>Op = OpSame, md_URN = ''urn:pulumi:dev::app::pulumi:pulumi:Stack::app-dev'',
                 Type = ''pulumi:pulumi:Stack'',
                 New = Some \<lparr>Outputs = [''url'' \<mapsto> ''https://first.example'']\<rparr>\<rparr>)]
   \<and> \<not> has_ConcurrentUpdate
         [(1, ResourceOutputs
                \<lparr>Op = OpSame, md_URN = ''urn:pulumi:dev::app::pulumi:pulumi:Stack::app-dev'',
                 Type = ''pulumi:pulumi:Stack'',
                 New = Some \<lparr>Outputs = [''url'' \<mapsto> ''https://first.example'']\<rparr>\<rparr>)]
   \<and> (\<exists>b s'. progress ProgressModeDeploy
         ([(1, ResourceOutputs
                \<lparr>Op = OpSame, md_URN = ''urn:pulumi:dev::app::pulumi:pulumi:Stack::app-dev'',
                 Type = ''pulumi:pulumi:Stack'',
                 New = Some \<lparr>Outputs = [''url'' \<mapsto> ''https://first.example'']\<rparr>\<rparr>)]
          @ (2, ResourceOutputs
                \<lparr>Op = OpUpdate, md_URN = ''urn:pulumi:dev::app::pulumi:pulumi:Stack::app-dev'',
                 Type = ''pulumi:pulumi:Stack'',
                 New = Some \<lparr>Outputs = [''url'' \<mapsto> ''https://second.example'']\<rparr>\<rparr>)
          # []) = Some (b, s')
        \<and> outputs s' = [''url'' \<mapsto> ''https://second.example''])"
proof -
  let ?first = "\<lparr>Op = OpSame, md_URN = ''urn:pulumi:dev::app::pulumi:pulumi:Stack::app-dev'',
                 Type = ''pulumi:pulumi:Stack'',
                 New = Some \<lparr>Outputs = [''url'' \<mapsto> ''https://first.example'']\<rparr>\<rparr>"
  let ?second = "\<lparr>Op = OpUpdate, md_URN = ''urn:pulumi:dev::app::pulumi:pulumi:Stack::app-dev'',
                 Type = ''pulumi:pulumi:Stack'',
                 New = Some \<lparr>Outputs = [''url'' \<mapsto> ''https://second.example'']\<rparr>\<rparr>"
  have t: "Type ?second = stack_type" by (simp add: stack_type_def)
  have o: "Op ?second \<noteq> OpDelete" by simp
  have n: "New ?second = Some \<lparr>Outputs = [''url'' \<mapsto> ''https://second.example'']\<rparr>" by simp
  have wf: "wellformed_stream [(1, ResourceOutputs ?first)]"
    by (simp add: wellformed_stream_def wellformed_def ResourceOutputs_def no_event_def
          stack_type_def)
  have cu: "\<not> has_ConcurrentUpdate [(1, ResourceOutputs ?first)]"
    by (simp add: has_ConcurrentUpdate_def ResourceOutputs_def no_event_def)
  have e: "wellformed_stream ([] :: (Time \<times> string stack_event) list)"
    "list_all (\<lambda>(now, evt). \<not> is_root_outputs evt) ([] :: (Time \<times> string stack_event) list)"
    by (simp_all add: wellformed_stream_def)
  from root_outputs_replace [OF t o n, of ProgressModeDeploy 2 "start ProgressModeDeploy"
         "[(1, ResourceOutputs ?first)]" "[]"] wf cu e
  have "handle ProgressModeDeploy 2 (start ProgressModeDeploy) (ResourceOutputs ?second)
          = Some (Continue ((start ProgressModeDeploy)
                     \<lparr>outputs := [''url'' \<mapsto> ''https://second.example'']\<rparr>))
        \<and> (\<exists>b s'. progress ProgressModeDeploy
         ([(1, ResourceOutputs ?first)] @ (2, ResourceOutputs ?second) # []) = Some (b, s')
        \<and> outputs s' = [''url'' \<mapsto> ''https://second.example''])"
    by simp
  with t o wf cu show ?thesis by blast
qed

text \<open>
  C8. An event with a diagnostic of severity \<^verbatim>\<open>error\<close> and an identifier (one that
  \<^verbatim>\<open>formatURN\<close> formats): the message appended to \<^verbatim>\<open>errors\<close> is the raw message when its split
  on the newline has two elements at most, and otherwise the trimmed last element of the
  split on the colon of element 1; it is the detail of the line written, when the line is
  written (the key is new) and the message is not empty.
\<close>

theorem attributed_diagnostic_message:
  assumes "Severity d = ''error''" and "diag_URN d \<noteq> []" and "urn_ok (diag_URN d)"
    and "msg = (if length (Split (diag_Message d) [CHR 0x0A]) > 2
                then TrimSpace (last (Split (Split (diag_Message d) [CHR 0x0A] ! 1) '':''))
                else diag_Message d)"
  shows "\<exists>s' shown. handle mode now s (Diagnostic d) = Some (Continue s')
           \<and> errors s' = errors s @ [\<lparr>Error = msg, err_URN = diag_URN d\<rparr>]
           \<and> formatURN (diag_URN d) = Some shown
           \<and> terminal s' =
               (if diag_URN d @ ''Error'' \<in> dedupe s then terminal s
                else terminal s @
                       [StatusLine FgRed (pad11 ''Error'') shown None
                          (if msg \<noteq> [] then Some msg else None)])"
proof -
  let ?s1 = "s\<lparr>errors := errors s @ [\<lparr>Error = msg, err_URN = diag_URN d\<rparr>]\<rparr>"
  let ?p = "\<lparr>Color = FgRed, Label = ''Error'', URN = diag_URN d, Final = True,
             Message = msg, Duration = 0\<rparr>"
  have m: "short_message (diag_Message d) = msg"
    using assms(4) by (simp add: short_message_def Let_def)
  have h: "handle mode now s (Diagnostic d) = map_option Continue (printProgress ?s1 ?p)"
    using assms(1,2) m
    by (simp add: handle_Diagnostic on_Diagnostic_def DiagnosticEvent_Diagnostic Let_def)
  from assms(3) obtain shown where f: "formatURN (diag_URN d) = Some shown"
    using formatURN_defined [of "diag_URN d"] by auto
  show ?thesis
  proof (cases "diag_URN d @ ''Error'' \<in> dedupe s")
    case True
    then have "printProgress ?s1 ?p = Some (?s1\<lparr>spin := Disable (spin ?s1)\<rparr>)"
      by (simp add: printProgress_seen)
    with h f True show ?thesis by simp
  next
    case False
    then have "URN ?p @ Label ?p \<notin> dedupe ?s1" by simp
    from printProgress_fresh [OF this] f h False show ?thesis by simp
  qed
qed

theorem attributed_diagnostic_message_witness:
  "Severity \<lparr>diag_URN = ''urn:pulumi:dev::app::aws:lambda/function:Function::Api'',
             diag_Message = ''line1\<newline>ERROR: boom\<newline>line3'', Severity = ''error''\<rparr> = ''error''
   \<and> diag_URN \<lparr>diag_URN = ''urn:pulumi:dev::app::aws:lambda/function:Function::Api'',
                diag_Message = ''line1\<newline>ERROR: boom\<newline>line3'', Severity = ''error''\<rparr> \<noteq> []
   \<and> urn_ok ''urn:pulumi:dev::app::aws:lambda/function:Function::Api''
   \<and> ''boom'' = (if length (Split ''line1\<newline>ERROR: boom\<newline>line3'' [CHR 0x0A]) > 2
                  then TrimSpace (last (Split
                         (Split ''line1\<newline>ERROR: boom\<newline>line3'' [CHR 0x0A] ! 1) '':''))
                  else ''line1\<newline>ERROR: boom\<newline>line3'')
   \<and> (\<exists>s' shown.
         handle ProgressModeDeploy 5 (start ProgressModeDeploy :: unit reducer)
           (Diagnostic \<lparr>diag_URN = ''urn:pulumi:dev::app::aws:lambda/function:Function::Api'',
                        diag_Message = ''line1\<newline>ERROR: boom\<newline>line3'',
                        Severity = ''error''\<rparr>) = Some (Continue s')
         \<and> errors s' = [\<lparr>Error = ''boom'',
                          err_URN = ''urn:pulumi:dev::app::aws:lambda/function:Function::Api''\<rparr>]
         \<and> terminal s' = [StatusLine FgRed ''Error      '' shown None (Some ''boom'')])"
proof -
  let ?d = "\<lparr>diag_URN = ''urn:pulumi:dev::app::aws:lambda/function:Function::Api'',
             diag_Message = ''line1\<newline>ERROR: boom\<newline>line3'', Severity = ''error''\<rparr>"
  have sev: "Severity ?d = ''error''" and urn: "diag_URN ?d \<noteq> []" by simp_all
  have ok: "urn_ok (diag_URN ?d)" by code_simp
  have msg: "''boom'' = (if length (Split (diag_Message ?d) [CHR 0x0A]) > 2
                then TrimSpace (last (Split (Split (diag_Message ?d) [CHR 0x0A] ! 1) '':''))
                else diag_Message ?d)"
    by code_simp
  have pad: "pad11 ''Error'' = ''Error      ''" by code_simp
  from attributed_diagnostic_message [OF sev urn ok msg,
         of ProgressModeDeploy 5 "start ProgressModeDeploy :: unit reducer"]
  have "\<exists>s' shown.
         handle ProgressModeDeploy 5 (start ProgressModeDeploy :: unit reducer) (Diagnostic ?d)
           = Some (Continue s')
         \<and> errors s' = [\<lparr>Error = ''boom'', err_URN = diag_URN ?d\<rparr>]
         \<and> terminal s' = [StatusLine FgRed ''Error      '' shown None (Some ''boom'')]"
    by (auto simp: start_def pad)
  with sev urn ok msg show ?thesis by simp
qed

text \<open>
  C9. For two modes other than \<^verbatim>\<open>refresh\<close> and the same stream (with the same readings of the
  clock), \<^verbatim>\<open>progress\<close> panics for both or returns for both, with the same value, the same
  terminal (status lines and final report), the same errors and outputs, and states that
  differ in nothing but the suffix of the spinner.
\<close>

theorem mode_only_sets_suffix:
  assumes "mode1 \<noteq> ProgressModeRefresh" and "mode2 \<noteq> ProgressModeRefresh"
  shows "map_option (\<lambda>(verdict, s). (verdict, terminal s, errors s, outputs s, with_suffix [] s))
           (progress mode1 events)
         = map_option (\<lambda>(verdict, s). (verdict, terminal s, errors s, outputs s, with_suffix [] s))
           (progress mode2 events)"
proof -
  have "map_option (on_state (with_suffix [])) (loop mode1 (start mode1) events)
        = map_option (on_state (with_suffix [])) (loop mode2 (start mode2) events)"
    using loop_with_suffix [of "[]" mode2 "mode_suffix mode1" "start mode2" events]
    by (simp add: loop_mode [OF assms] start_with_suffix [of mode1 mode2])
  from progress_with_suffix [OF this]
  have eq: "map_option (\<lambda>(b, s). (b, with_suffix [] s)) (progress mode1 events) =
            map_option (\<lambda>(b, s). (b, with_suffix [] s)) (progress mode2 events)" .
  have "map_option (\<lambda>(verdict, s). (verdict, terminal s, errors s, outputs s, with_suffix [] s)) r
        = map_option (\<lambda>(verdict, s). (verdict, terminal s, errors s, outputs s, s))
            (map_option (\<lambda>(b, s). (b, with_suffix [] s)) r)"
    for r :: "(bool \<times> 'a reducer) option"
    by (cases r) auto
  with eq show ?thesis by simp
qed

theorem mode_only_sets_suffix_witness:
  "ProgressModeDeploy \<noteq> ProgressModeRefresh \<and> ProgressModeRemove \<noteq> ProgressModeRefresh
   \<and> map_option (\<lambda>(verdict, s). (verdict, terminal s, errors s, outputs s, with_suffix [] s))
         (progress ProgressModeDeploy simple_create)
     = map_option (\<lambda>(verdict, s). (verdict, terminal s, errors s, outputs s, with_suffix [] s))
         (progress ProgressModeRemove simple_create)
   \<and> map_option (\<lambda>(verdict, s). (verdict, Suffix (spin s), length (terminal s)))
         (progress ProgressModeDeploy simple_create) = Some (True, ''  Deploying...'', 3)
   \<and> map_option (\<lambda>(verdict, s). (verdict, Suffix (spin s), length (terminal s)))
         (progress ProgressModeRemove simple_create) = Some (True, ''  Removing...'', 3)"
proof -
  have m: "ProgressModeDeploy \<noteq> ProgressModeRefresh" "ProgressModeRemove \<noteq> ProgressModeRefresh"
    by simp_all
  have d: "map_option (\<lambda>(verdict, s). (verdict, Suffix (spin s), length (terminal s)))
         (progress ProgressModeDeploy simple_create) = Some (True, ''  Deploying...'', 3)"
    by code_simp
  have r: "map_option (\<lambda>(verdict, s). (verdict, Suffix (spin s), length (terminal s)))
         (progress ProgressModeRemove simple_create) = Some (True, ''  Removing...'', 3)"
    by code_simp
  from mode_only_sets_suffix [OF m, of simple_create] m d r show ?thesis by blast
qed

text \<open>
  C10. The outputs of a resource other than the stack, for an operation without a label in
  the table of \<^verbatim>\<open>ResourceOutputs\<close> (\<^verbatim>\<open>same\<close> when the mode is not \<^verbatim>\<open>refresh\<close>, \<^verbatim>\<open>refresh\<close>, and the
  operations the table does not name): the iteration ends with the state it started with,
  terminal and spinner included.
\<close>

theorem unlabelled_outputs_dropped:
  assumes "Type md \<noteq> stack_type" and "spec_outputs_label mode (Op md) = None"
  shows "handle mode now s (ResourceOutputs md) = Some (Continue s)"
  using assms
  by (simp add: handle_ResourceOutputs
        on_ResOutputs_table [OF ResOutputsEvent_ResourceOutputs]
        on_Diagnostic_ResourceOutputs)

theorem unlabelled_outputs_dropped_witness:
  "Type \<lparr>Op = OpSame, md_URN = ''urn:pulumi:dev::app::aws:s3/bucket:Bucket::Assets'',
         Type = ''aws:s3/bucket:Bucket'', New = None :: unit step_state option\<rparr> \<noteq> stack_type
   \<and> spec_outputs_label ProgressModeDeploy OpSame = None
   \<and> spec_outputs_label ProgressModeRefresh OpRefresh = None
   \<and> handle ProgressModeDeploy 7 (start ProgressModeDeploy)
         (ResourceOutputs
            \<lparr>Op = OpSame, md_URN = ''urn:pulumi:dev::app::aws:s3/bucket:Bucket::Assets'',
             Type = ''aws:s3/bucket:Bucket'', New = None :: unit step_state option\<rparr>)
       = Some (Continue (start ProgressModeDeploy))
   \<and> handle ProgressModeRefresh 7 (start ProgressModeRefresh)
         (ResourceOutputs
            \<lparr>Op = OpRefresh, md_URN = ''urn:pulumi:dev::app::aws:s3/bucket:Bucket::Assets'',
             Type = ''aws:s3/bucket:Bucket'', New = None :: unit step_state option\<rparr>)
       = Some (Continue (start ProgressModeRefresh))"
proof -
  let ?same = "\<lparr>Op = OpSame, md_URN = ''urn:pulumi:dev::app::aws:s3/bucket:Bucket::Assets'',
                 Type = ''aws:s3/bucket:Bucket'', New = None :: unit step_state option\<rparr>"
  let ?refresh = "\<lparr>Op = OpRefresh, md_URN = ''urn:pulumi:dev::app::aws:s3/bucket:Bucket::Assets'',
                 Type = ''aws:s3/bucket:Bucket'', New = None :: unit step_state option\<rparr>"
  have t1: "Type ?same \<noteq> stack_type" and t2: "Type ?refresh \<noteq> stack_type"
    by (simp_all add: stack_type_def)
  have l1: "spec_outputs_label ProgressModeDeploy (Op ?same) = None"
    and l2: "spec_outputs_label ProgressModeRefresh (Op ?refresh) = None"
    by (simp_all add: spec_outputs_label_def)
  from unlabelled_outputs_dropped [OF t1 l1] unlabelled_outputs_dropped [OF t2 l2] t1 l1 l2
  show ?thesis by simp
qed

end
